theory Spec2Isabelle
  imports
    Complex_Main
    "HOL-Library.Product_Lexorder"
    "HOL-Library.List_Lexorder"
    "HOL-Library.Char_ord"
    "HOL-Library.Multiset"
    "HOL-Library.Sublist"
begin

section \<open>Data model (order\_book.py)\<close>

text \<open>
  A Python float that is a number (prices, cash, timestamps) is the \<^typ>\<open>real\<close> it
  denotes. The order book only copies and compares prices and timestamps, and comparing
  two finite floats is comparing the reals they denote, so on finite floats the book
  behaves as it does on reals. NaN and the infinities are not values of \<^typ>\<open>real\<close>:
  every statement about the order book below is a statement about calls whose prices are
  finite numbers. (With a NaN price every comparison is false, the orders are no longer
  totally ordered, and \<open>heapq\<close> does not keep the best order at index 0.)

  Arithmetic is where doubles and reals differ, since a double operation rounds its
  result. Settlement, the one place where the environment does arithmetic on cash,
  therefore takes the float operations as a parameter (\<open>float_arith\<close> below). The totals
  and the average price that \<open>_execute_market_order\<close> accumulates are written with exact
  arithmetic; no statement below is about them.

  Python ints are \<^typ>\<open>int\<close>, strings are \<^typ>\<open>string\<close>. A field name used by several
  classes carries the class as a prefix (\<open>order_price\<close>, \<open>trade_price\<close>, \<open>inst_price\<close>, ...).

  \<open>Order.sort_index\<close> is computed once in \<open>__post_init__\<close> from \<open>side\<close>, \<open>price\<close> and
  \<open>timestamp\<close>, none of which is ever assigned afterwards, so it is a function of the
  record. The only field of a resting or incoming order that is mutated is \<open>quantity\<close>.
\<close>

record order =
  order_id :: string
  agent_id :: string
  side :: string
  order_price :: real
  quantity :: int
  order_type :: string
  timestamp :: real

record trade =
  trade_price :: real
  volume :: int
  trade_symbol :: string
  buyer :: string
  seller :: string
  buyer_order :: string
  seller_order :: string
  trade_time :: "int option"

definition sort_index :: "order \<Rightarrow> real \<times> real" where
  "sort_index ord =
     (if side ord = ''buy'' then (- order_price ord, timestamp ord)
      else (order_price ord, timestamp ord))"

text \<open>
  \<open>@dataclass(order=True)\<close> compares two orders as the tuples of their fields in
  declaration order, \<open>sort_index\<close> first; tuples and strings compare lexicographically.
\<close>

type_synonym order_key =
  "(real \<times> real) \<times> string \<times> string \<times> string \<times> real \<times> int \<times> string \<times> real"

definition order_key :: "order \<Rightarrow> order_key" where
  "order_key ord =
     (sort_index ord, order_id ord, agent_id ord, side ord, order_price ord,
      quantity ord, order_type ord, timestamp ord)"

text \<open>
  The two sides of the book are \<open>heapq\<close> heaps. A heap is represented by its contents in
  ascending order of \<^const>\<open>order_key\<close>: \<open>heappush\<close> inserts, \<open>heappop\<close> removes the
  head, and \<open>heap[0]\<close> is the head. The array layout that \<open>heapq\<close> keeps inside the
  list is not modelled; the book only ever reads index 0, the length, and the first
  extremal element by price, which in a heap of orders is again the element at index 0.
  This representation is that of a \<open>heapq\<close> heap whose elements are totally ordered by
  \<open>__lt__\<close>, which orders are as long as no price or timestamp is NaN.
\<close>

definition heappush :: "order list \<Rightarrow> order \<Rightarrow> order list" where
  "heappush heap ord = insort_key order_key ord heap"

record order_book =
  book_symbol :: string
  bids :: "order list"
  asks :: "order list"
  trades :: "trade list"
  current_tick :: "int option"

datatype error = ValueError string | KeyError string | TypeError string

definition OrderBook_init :: "string \<Rightarrow> order_book" where
  "OrderBook_init symbol =
     \<lparr>book_symbol = (if symbol \<noteq> [] then symbol else ''UNKNOWN''),
      bids = [], asks = [], trades = [], current_tick = None\<rparr>"

definition add_to_book :: "order_book \<Rightarrow> order \<Rightarrow> order_book" where
  "add_to_book book ord =
     (if side ord = ''buy'' then book\<lparr>bids := heappush (bids book) ord\<rparr>
      else book\<lparr>asks := heappush (asks book) ord\<rparr>)"

definition make_trade :: "string \<Rightarrow> int option \<Rightarrow> order \<Rightarrow> order \<Rightarrow> real \<Rightarrow> int \<Rightarrow> trade" where
  "make_trade symb tick incoming best tprice traded_vol =
     \<lparr>trade_price = tprice,
      volume = traded_vol,
      trade_symbol = symb,
      buyer = (if side incoming = ''buy'' then agent_id incoming else agent_id best),
      seller = (if side incoming = ''buy'' then agent_id best else agent_id incoming),
      buyer_order = (if side incoming = ''buy'' then order_id incoming else order_id best),
      seller_order = (if side incoming = ''buy'' then order_id best else order_id incoming),
      trade_time = tick\<rparr>"

subsection \<open>Limit orders: \<open>_match_against\<close>\<close>

text \<open>
  The \<open>while\<close> loop of \<open>_match_against\<close>, on the loop state
  (incoming order, opposite heap, skipped orders, trades so far). A Python string
  is truthy iff it is non-empty.
\<close>

function match_loop ::
  "string \<Rightarrow> int option \<Rightarrow> order \<Rightarrow> order list \<Rightarrow> order list \<Rightarrow> trade list
     \<Rightarrow> order \<times> order list \<times> order list \<times> trade list" where
  "match_loop symb tick incoming opposite skipped tr =
     (if quantity incoming > 0 \<and> opposite \<noteq> [] then
        (let best = hd opposite in
         if agent_id incoming \<noteq> [] \<and> agent_id best \<noteq> [] \<and> agent_id best = agent_id incoming
         then match_loop symb tick incoming (tl opposite) (skipped @ [best]) tr
         else if side incoming = ''buy'' \<and> order_price incoming < order_price best
         then (incoming, opposite, skipped, tr)
         else if side incoming = ''sell'' \<and> order_price incoming > order_price best
         then (incoming, opposite, skipped, tr)
         else
           (let traded_vol = min (quantity incoming) (quantity best);
                t = make_trade symb tick incoming best (order_price incoming) traded_vol;
                incoming' = incoming\<lparr>quantity := quantity incoming - traded_vol\<rparr>;
                best' = best\<lparr>quantity := quantity best - traded_vol\<rparr>
            in match_loop symb tick incoming'
                 (if quantity best' > 0 then heappush (tl opposite) best' else tl opposite)
                 skipped (tr @ [t])))
      else (incoming, opposite, skipped, tr))"
  by pat_completeness auto
termination
  by (relation "measure (\<lambda>(symb, tick, incoming, opposite, skipped, tr).
        length opposite + (if quantity incoming > 0 then 1 else 0))")
     (auto simp: heappush_def min_def)

declare match_loop.simps [simp del]

text \<open>\<open>_match_against\<close>: returns the trades, the mutated incoming order and the book.\<close>

definition match_against :: "order_book \<Rightarrow> order \<Rightarrow> trade list \<times> order \<times> order_book" where
  "match_against book incoming =
     (let opposite = (if side incoming = ''buy'' then asks book else bids book);
          (incoming', opposite', skipped, tr) =
             match_loop (book_symbol book) (current_tick book) incoming opposite [] [];
          restored = fold (\<lambda>ord heap. heappush heap ord) skipped opposite';
          book' = (if side incoming = ''buy'' then book\<lparr>asks := restored\<rparr>
                   else book\<lparr>bids := restored\<rparr>)
      in (tr, incoming', book'\<lparr>trades := trades book @ tr\<rparr>))"

definition place_limit_order :: "order_book \<Rightarrow> order \<Rightarrow> trade list \<times> order_book" where
  "place_limit_order book ord =
     (let (tr, ord', book') = match_against book ord
      in (tr, if quantity ord' > 0 then add_to_book book' ord' else book'))"

subsection \<open>Market orders: \<open>_execute_market_order\<close>\<close>

record market_result =
  mr_trades :: "trade list"
  filled :: int
  unfilled :: int
  avg_price :: "real option"

function market_loop ::
  "string \<Rightarrow> int option \<Rightarrow> order \<Rightarrow> order list \<Rightarrow> trade list \<Rightarrow> int \<Rightarrow> real
     \<Rightarrow> order \<times> order list \<times> trade list \<times> int \<times> real" where
  "market_loop symb tick ord opposite tr total_filled total_cost =
     (if quantity ord > 0 \<and> opposite \<noteq> [] then
        (let best = hd opposite;
             traded_vol = min (quantity ord) (quantity best);
             tprice = order_price best;
             t = make_trade symb tick ord best tprice traded_vol;
             ord' = ord\<lparr>quantity := quantity ord - traded_vol\<rparr>;
             best' = best\<lparr>quantity := quantity best - traded_vol\<rparr>
         in market_loop symb tick ord'
              (if quantity best' > 0 then heappush (tl opposite) best' else tl opposite)
              (tr @ [t]) (total_filled + traded_vol)
              (total_cost + real_of_int traded_vol * tprice))
      else (ord, opposite, tr, total_filled, total_cost))"
  by pat_completeness auto
termination
  by (relation "measure (\<lambda>(symb, tick, ord, opposite, tr, total_filled, total_cost).
        length opposite + (if quantity ord > 0 then 1 else 0))")
     (auto simp: heappush_def min_def)

declare market_loop.simps [simp del]

definition execute_market_order :: "order_book \<Rightarrow> order \<Rightarrow> market_result \<times> order_book" where
  "execute_market_order book ord =
     (let opposite = (if side ord = ''buy'' then asks book else bids book);
          (ord', opposite', tr, total_filled, total_cost) =
             market_loop (book_symbol book) (current_tick book) ord opposite [] 0 0;
          book' = (if side ord = ''buy'' then book\<lparr>asks := opposite'\<rparr>
                   else book\<lparr>bids := opposite'\<rparr>)
      in (\<lparr>mr_trades = tr, filled = total_filled, unfilled = quantity ord',
           avg_price = (if total_filled \<noteq> 0
                        then Some (total_cost / real_of_int total_filled) else None)\<rparr>,
          book'\<lparr>trades := trades book @ tr\<rparr>))"

definition place_market_order :: "order_book \<Rightarrow> order \<Rightarrow> market_result \<times> order_book" where
  "place_market_order book ord = execute_market_order book ord"

subsection \<open>\<open>place_order\<close>, \<open>best_bid\<close>, \<open>best_ask\<close>\<close>

text \<open>
  The \<open>Order\<close> constructor draws a fresh \<open>uuid4\<close> and reads the clock. Both come from
  outside the program, so \<open>place_order\<close> takes them as its last argument
  \<open>(order id, timestamp)\<close>. The result is the list of trades or the exception raised,
  together with the book after the call.
\<close>

definition place_order ::
  "order_book \<Rightarrow> real \<Rightarrow> int \<Rightarrow> string \<Rightarrow> string \<Rightarrow> string \<Rightarrow> string \<times> real
     \<Rightarrow> (error + trade list) \<times> order_book" where
  "place_order book price vol sd otype agent fresh =
     (let ord = \<lparr>order_id = fst fresh, agent_id = agent, side = sd, order_price = price,
                 quantity = vol, order_type = otype, timestamp = snd fresh\<rparr>
      in if otype = ''limit'' then
           (let (tr, book') = place_limit_order book ord in (Inr tr, book'))
         else if otype = ''market'' then
           (let (res, book') = place_market_order book ord in (Inr (mr_trades res), book'))
         else (Inl (ValueError (''Unknown order type: '' @ otype)), book))"

text \<open>
  Python's \<open>max(xs, key=f, default=None)\<close> and \<open>min(xs, key=f, default=None)\<close>: the
  first element, in iteration order, whose key is extremal.
\<close>

fun py_max_by :: "('a \<Rightarrow> 'b::linorder) \<Rightarrow> 'a list \<Rightarrow> 'a option" where
  "py_max_by f [] = None"
| "py_max_by f (x # xs) = Some (foldl (\<lambda>m y. if f y > f m then y else m) x xs)"

fun py_min_by :: "('a \<Rightarrow> 'b::linorder) \<Rightarrow> 'a list \<Rightarrow> 'a option" where
  "py_min_by f [] = None"
| "py_min_by f (x # xs) = Some (foldl (\<lambda>m y. if f y < f m then y else m) x xs)"

definition best_bid :: "order_book \<Rightarrow> order option" where
  "best_bid book = py_max_by order_price (bids book)"

definition best_ask :: "order_book \<Rightarrow> order option" where
  "best_ask book = py_min_by order_price (asks book)"

section \<open>Instrument and Environment (instrument.py, environment.py)\<close>

record instrument =
  inst_symbol :: string
  inst_price :: real
  order_book :: order_book

definition Instrument_init :: "string \<Rightarrow> real \<Rightarrow> instrument" where
  "Instrument_init symbol initial_price =
     \<lparr>inst_symbol = symbol, inst_price = initial_price, order_book = OrderBook_init symbol\<rparr>"

record account =
  cash :: real
  portfolio :: "string \<rightharpoonup> int"

text \<open>
  An order request is the dict handed to \<open>submit_order\<close>. The keys read with
  \<open>order[...]\<close> are fields; the keys read with \<open>order.get(..., default)\<close> are optional.
\<close>

record order_request =
  req_symbol :: string
  req_price :: real
  req_volume :: int
  req_side :: string
  req_order_type :: "string option"
  req_agent_id :: "string option"

text \<open>
  \<open>instruments\<close> is a dict that the code iterates over, so it is an association list in
  insertion order; lookup and in-place update act on the first entry with the key.
  \<open>agent_accounts\<close> is only ever indexed, so it is a map.

  The dict \<open>agent_accounts\<close> has keys of two kinds: participant ids, which are strings
  (the \<open>buyer\<close> and \<open>seller\<close> of a trade, the \<open>agent_id\<close> of a message), and connection
  addresses, which are the tuples \<open>(host, port)\<close> that \<open>socket.accept\<close> returns and
  \<open>handle_client\<close> passes to \<open>add_account\<close> and \<open>get_state\<close>. A string never equals a
  tuple, so the dict is the disjoint union of a map on strings, \<open>agent_accounts\<close>, and a
  map on addresses, \<open>addr_accounts\<close>.
\<close>

type_synonym address = "string \<times> nat"

datatype account_key = Agent string | Addr address

record environment =
  instruments :: "(string \<times> instrument) list"
  env_time :: int
  trade_log :: "trade list"
  pending_orders :: "order_request list"
  agent_accounts :: "string \<rightharpoonup> account"
  addr_accounts :: "address \<rightharpoonup> account"

definition Environment_init :: "(string \<times> instrument) list \<Rightarrow> environment" where
  "Environment_init insts =
     \<lparr>instruments = insts, env_time = 0, trade_log = [], pending_orders = [],
      agent_accounts = Map.empty, addr_accounts = Map.empty\<rparr>"

text \<open>\<open>add_account\<close> with a participant id, and with a connection address.\<close>

definition add_account :: "environment \<Rightarrow> string \<Rightarrow> environment" where
  "add_account env agent =
     env\<lparr>agent_accounts := (agent_accounts env)(agent \<mapsto> \<lparr>cash = 1000000, portfolio = Map.empty\<rparr>)\<rparr>"


definition submit_order :: "environment \<Rightarrow> order_request \<Rightarrow> environment" where
  "submit_order env req = env\<lparr>pending_orders := pending_orders env @ [req]\<rparr>"

subsection \<open>Settlement: \<open>update_accounts\<close>\<close>

text \<open>
  \<open>buyer_acc\<close> and \<open>seller_acc\<close> are references into \<open>agent_accounts\<close>; when buyer and
  seller are the same participant they are the same object. Every write through a
  reference is therefore a write to the map at that participant's key, and every read
  sees the writes before it. Both keys exist once the two \<open>add_account\<close> guards have run.
\<close>

definition modify_account ::
  "(string \<rightharpoonup> account) \<Rightarrow> string \<Rightarrow> (account \<Rightarrow> account) \<Rightarrow> (string \<rightharpoonup> account)" where
  "modify_account accs agent f =
     (case accs agent of None \<Rightarrow> accs | Some a \<Rightarrow> accs(agent \<mapsto> f a))"

definition position :: "(string \<rightharpoonup> account) \<Rightarrow> string \<Rightarrow> string \<Rightarrow> int" where
  "position accs agent symbol =
     (case accs agent of None \<Rightarrow> 0
      | Some a \<Rightarrow> (case portfolio a symbol of None \<Rightarrow> 0 | Some p \<Rightarrow> p))"

text \<open>
  The three float operations of \<open>update_accounts\<close>: the product \<open>trade.price * volume\<close> of
  a float and an int, the difference in \<open>cash -= value\<close> and the sum in \<open>cash += value\<close>.
  Each returns the double nearest to the exact result, which is the exact result when
  that is a double. What the operations return is left open here; holdings are ints and
  their arithmetic is exact.
\<close>

record float_arith =
  fl_mul :: "real \<Rightarrow> int \<Rightarrow> real"
  fl_sub :: "real \<Rightarrow> real \<Rightarrow> real"
  fl_add :: "real \<Rightarrow> real \<Rightarrow> real"

definition update_accounts_with :: "float_arith \<Rightarrow> environment \<Rightarrow> trade \<Rightarrow> environment" where
  "update_accounts_with arith env t =
     (let b = buyer t; s = seller t; symbol = trade_symbol t; vol = volume t;
          value = fl_mul arith (trade_price t) vol;
          env1 = (if agent_accounts env b = None then add_account env b else env);
          env2 = (if agent_accounts env1 s = None then add_account env1 s else env1);
          accs1 = modify_account (agent_accounts env2) b
                    (\<lambda>a. a\<lparr>cash := fl_sub arith (cash a) value\<rparr>);
          buyer_pos = position accs1 b symbol;
          accs2 = modify_account accs1 b
                    (\<lambda>a. a\<lparr>portfolio := (portfolio a)(symbol \<mapsto> buyer_pos + vol)\<rparr>);
          accs3 = modify_account accs2 s
                    (\<lambda>a. a\<lparr>cash := fl_add arith (cash a) value\<rparr>);
          seller_pos = position accs3 s symbol;
          accs4 = modify_account accs3 s
                    (\<lambda>a. a\<lparr>portfolio := (portfolio a)(symbol \<mapsto> seller_pos - vol)\<rparr>)
      in env2\<lparr>agent_accounts := accs4\<rparr>)"

text \<open>
  The operations without rounding. They are the float operations on every input whose
  exact results are doubles, such as the cash 1000000, the prices 100 and 101 and the
  volume 5 of the examples below: 100 * 5 = 500, 1000000 - 500 = 999500 and
  1000000 + 500 = 1000500 are computed exactly by doubles. \<open>update_accounts\<close> with these
  operations is what \<open>tick\<close> is run with in what follows.
\<close>

definition exact_arith :: float_arith where
  "exact_arith = \<lparr>fl_mul = (\<lambda>p v. p * real_of_int v), fl_sub = (-), fl_add = (+)\<rparr>"

definition update_accounts :: "environment \<Rightarrow> trade \<Rightarrow> environment" where
  "update_accounts env t = update_accounts_with exact_arith env t"

subsection \<open>\<open>process_orders\<close>\<close>

fun set_instrument ::
  "(string \<times> instrument) list \<Rightarrow> string \<Rightarrow> instrument \<Rightarrow> (string \<times> instrument) list" where
  "set_instrument [] symbol inst = []"
| "set_instrument ((k, v) # rest) symbol inst =
     (if k = symbol then (k, inst) # rest else (k, v) # set_instrument rest symbol inst)"

text \<open>
  The inner loop \<open>for t in trades\<close>: stamp the trade with the environment's time, append
  it to \<open>all_trades\<close>, settle it.
\<close>

fun settle_loop :: "environment \<Rightarrow> trade list \<Rightarrow> trade list \<Rightarrow> trade list \<times> environment" where
  "settle_loop env [] all_trades = (all_trades, env)"
| "settle_loop env (t # rest) all_trades =
     (let t' = t\<lparr>trade_time := Some (env_time env)\<rparr>
      in settle_loop (update_accounts env t') rest (all_trades @ [t']))"

text \<open>
  The trades that \<open>place_order\<close> returns are the objects it has just appended to the
  book's own \<open>trades\<close> buffer, so stamping them changes the last entries of that buffer
  as well.
\<close>

definition stamp_tail :: "int \<Rightarrow> nat \<Rightarrow> trade list \<Rightarrow> trade list" where
  "stamp_tail now n ts =
     take (length ts - n) ts
       @ map (\<lambda>t. t\<lparr>trade_time := Some now\<rparr>) (drop (length ts - n) ts)"

text \<open>
  The outer loop \<open>for order in self.pending_orders\<close>. The \<open>i\<close>-th request processed
  gets the order id and timestamp \<open>fresh i\<close>. An unknown symbol raises \<open>KeyError\<close> at
  \<open>self.instruments[symbol]\<close>; an exception leaves the loop with the state as it is.
\<close>

fun process_loop ::
  "(nat \<Rightarrow> string \<times> real) \<Rightarrow> nat \<Rightarrow> environment \<Rightarrow> order_request list \<Rightarrow> trade list
     \<Rightarrow> (error + trade list) \<times> environment" where
  "process_loop fresh i env [] all_trades = (Inr all_trades, env)"
| "process_loop fresh i env (req # rest) all_trades =
     (case map_of (instruments env) (req_symbol req) of
        None \<Rightarrow> (Inl (KeyError (req_symbol req)), env)
      | Some inst \<Rightarrow>
          (case place_order (order_book inst) (req_price req) (req_volume req) (req_side req)
                  (case req_order_type req of None \<Rightarrow> ''limit'' | Some k \<Rightarrow> k)
                  (case req_agent_id req of None \<Rightarrow> ''unknown'' | Some a \<Rightarrow> a)
                  (fresh i) of
             (Inl e, book') \<Rightarrow> (Inl e, env)
           | (Inr tr, book') \<Rightarrow>
               (let book'' = book'\<lparr>trades := stamp_tail (env_time env) (length tr) (trades book')\<rparr>;
                    env' = env\<lparr>instruments :=
                             set_instrument (instruments env) (req_symbol req)
                               (inst\<lparr>order_book := book''\<rparr>)\<rparr>;
                    (all_trades', env'') = settle_loop env' tr all_trades
                in process_loop fresh (Suc i) env'' rest all_trades')))"

definition process_orders ::
  "(nat \<Rightarrow> string \<times> real) \<Rightarrow> environment \<Rightarrow> (error + trade list) \<times> environment" where
  "process_orders fresh env =
     (case process_loop fresh 0 env (pending_orders env) [] of
        (Inl e, env') \<Rightarrow> (Inl e, env')
      | (Inr all_trades, env') \<Rightarrow>
          (let env'' = env'\<lparr>pending_orders := []\<rparr>
           in (Inr all_trades,
               if all_trades \<noteq> [] then env''\<lparr>trade_log := trade_log env'' @ all_trades\<rparr>
               else env'')))"

subsection \<open>\<open>get_state\<close>, \<open>update_prices\<close>, \<open>reset\<close>, \<open>tick\<close>\<close>

record state =
  st_time :: int
  st_instruments :: "string list"
  st_order_books :: "(string \<times> nat \<times> nat) list"
  st_prices :: "(string \<times> real) list"
  st_account :: "account option"

text \<open>
  \<open>str\<close> of a connection address, or of \<open>None\<close>: \<open>('127.0.0.1', 5000)\<close>. (For a host
  name with quotes or backslashes in it Python's \<open>repr\<close> escapes them; host names here
  have none.)
\<close>

function py_str_nat :: "nat \<Rightarrow> string" where
  "py_str_nat n =
     (if n < 10 then [char_of (48 + n)]
      else py_str_nat (n div 10) @ [char_of (48 + n mod 10)])"
  by pat_completeness auto
termination by (relation "measure id") auto

declare py_str_nat.simps [simp del]

definition py_str_addr :: "address option \<Rightarrow> string" where
  "py_str_addr addr =
     (case addr of
        None \<Rightarrow> ''None''
      | Some (host, port) \<Rightarrow>
          [CHR ''('', CHR 0x27] @ host @ [CHR 0x27] @ '', '' @ py_str_nat port @ '')'')"

text \<open>
  \<open>addr\<close> is \<open>None\<close> by default; \<open>if addr:\<close> is also false for the empty string, and true
  for every address tuple. \<open>self.agent_accounts[addr]\<close> raises \<open>KeyError\<close> when the key
  has no account.
\<close>

definition get_state :: "environment \<Rightarrow> account_key option \<Rightarrow> error + state" where
  "get_state env addr =
     (let base = \<lparr>st_time = env_time env,
                  st_instruments = map fst (instruments env),
                  st_order_books =
                    map (\<lambda>(symb, inst). (symb, length (bids (order_book inst)),
                                               length (asks (order_book inst))))
                        (instruments env),
                  st_prices = map (\<lambda>(symb, inst). (symb, inst_price inst)) (instruments env),
                  st_account = None\<rparr>
      in case addr of
           None \<Rightarrow> Inr base
         | Some (Agent a) \<Rightarrow>
             if a \<noteq> [] then
               (case agent_accounts env a of
                  None \<Rightarrow> Inl (KeyError a)
                | Some acc \<Rightarrow> Inr (base\<lparr>st_account := Some acc\<rparr>))
             else Inr base
         | Some (Addr ad) \<Rightarrow>
             (case addr_accounts env ad of
                None \<Rightarrow> Inl (KeyError (py_str_addr (Some ad)))
              | Some acc \<Rightarrow> Inr (base\<lparr>st_account := Some acc\<rparr>)))"

definition update_prices :: "environment \<Rightarrow> environment" where
  "update_prices env =
     env\<lparr>instruments :=
       map (\<lambda>(symb, inst).
              (let ts = filter (\<lambda>t. trade_symbol t = symb \<and> trade_time t = Some (env_time env))
                          (trade_log env)
               in (symb, if ts \<noteq> [] then inst\<lparr>inst_price := trade_price (last ts)\<rparr> else inst)))
           (instruments env)\<rparr>"

definition reset :: "environment \<Rightarrow> (error + state) \<times> environment" where
  "reset env =
     (let env' = env\<lparr>env_time := 0, trade_log := [],
                    instruments :=
                      map (\<lambda>(symb, inst).
                             (symb, inst\<lparr>order_book :=
                                (order_book inst)\<lparr>bids := [], asks := [], trades := []\<rparr>\<rparr>))
                          (instruments env)\<rparr>
      in (get_state env' None, env'))"

record tick_result =
  tick_time :: int
  tick_trades :: "trade list"
  tick_state :: state

definition tick ::
  "(nat \<Rightarrow> string \<times> real) \<Rightarrow> environment \<Rightarrow> (error + tick_result) \<times> environment" where
  "tick fresh env =
     (let env1 = env\<lparr>env_time := env_time env + 1\<rparr>
      in case process_orders fresh env1 of
           (Inl e, env2) \<Rightarrow> (Inl e, env2)
         | (Inr tr, env2) \<Rightarrow>
             (let env3 = update_prices env2
              in case get_state env3 None of
                   Inl e \<Rightarrow> (Inl e, env3)
                 | Inr st \<Rightarrow>
                     (Inr \<lparr>tick_time = env_time env3, tick_trades = tr, tick_state = st\<rparr>,
                      env3)))"

section \<open>The market server (market\_server.py)\<close>








section \<open>Observations and example inputs\<close>

text \<open>
  The cash an account holds, or the balance \<open>add_account\<close> would open it with when the
  participant has no account yet.
\<close>

definition cash_or_start :: "(string \<rightharpoonup> account) \<Rightarrow> string \<Rightarrow> real" where
  "cash_or_start accs agent = (case accs agent of None \<Rightarrow> 1000000 | Some a \<Rightarrow> cash a)"

text \<open>The \<open>"trades"\<close> entry of the dict returned by \<open>tick\<close>; empty when \<open>tick\<close> raised.\<close>

definition result_trades :: "(error + tick_result) \<Rightarrow> trade list" where
  "result_trades r = (case r of Inl e \<Rightarrow> [] | Inr res \<Rightarrow> tick_trades res)"

text \<open>The \<open>"prices"\<close> entry of \<open>get_state\<close>: each instrument's last traded price.\<close>

definition prices_of :: "environment \<Rightarrow> (string \<times> real) list" where
  "prices_of env = map (\<lambda>(symb, inst). (symb, inst_price inst)) (instruments env)"

text \<open>Order ids \<open>o\<close>, \<open>oo\<close>, \<open>ooo\<close>, ... and timestamps 0, 1, 2, ...\<close>

definition fresh_ids :: "nat \<Rightarrow> string \<times> real" where
  "fresh_ids i = (replicate (Suc i) CHR ''o'', real i)"

definition env_X :: environment where
  "env_X = Environment_init [(''X'', Instrument_init ''X'' 100)]"

definition req_buy_A :: order_request where
  "req_buy_A = \<lparr>req_symbol = ''X'', req_price = 101, req_volume = 5, req_side = ''buy'',
      req_order_type = Some ''limit'', req_agent_id = Some ''A''\<rparr>"

definition req_sell_B :: order_request where
  "req_sell_B = \<lparr>req_symbol = ''X'', req_price = 100, req_volume = 5, req_side = ''sell'',
      req_order_type = Some ''limit'', req_agent_id = Some ''B''\<rparr>"

definition req_unknown :: order_request where
  "req_unknown = \<lparr>req_symbol = ''NOPE'', req_price = 10, req_volume = 1, req_side = ''buy'',
      req_order_type = Some ''limit'', req_agent_id = Some ''A''\<rparr>"

definition req_buy_anon :: order_request where
  "req_buy_anon = \<lparr>req_symbol = ''X'', req_price = 100, req_volume = 5, req_side = ''buy'',
      req_order_type = Some ''limit'', req_agent_id = Some []\<rparr>"

definition req_sell_anon :: order_request where
  "req_sell_anon = \<lparr>req_symbol = ''X'', req_price = 100, req_volume = 5, req_side = ''sell'',
      req_order_type = Some ''limit'', req_agent_id = Some []\<rparr>"

definition env_AB :: environment where
  "env_AB = submit_order (submit_order env_X req_buy_A) req_sell_B"

definition env_anon :: environment where
  "env_anon = submit_order (submit_order env_X req_buy_anon) req_sell_anon"

definition trade_AB :: trade where
  "trade_AB = \<lparr>trade_price = 100, volume = 5, trade_symbol = ''X'', buyer = ''A'',
      seller = ''B'', buyer_order = ''o'', seller_order = ''oo'', trade_time = Some 1\<rparr>"

definition trade_self :: trade where
  "trade_self = \<lparr>trade_price = 100, volume = 5, trade_symbol = ''X'', buyer = [],
      seller = [], buyer_order = ''o'', seller_order = ''oo'', trade_time = Some 1\<rparr>"

definition env_XY :: environment where
  "env_XY =
     submit_order
       (submit_order
          (Environment_init [(''X'', Instrument_init ''X'' 90), (''Y'', Instrument_init ''Y'' 150)])
          req_buy_A)
       req_sell_B"





section \<open>Vocabulary for the order-book properties\<close>

text \<open>The two tests inside the loop of \<open>_match_against\<close>, named.\<close>

definition same_agent :: "order \<Rightarrow> order \<Rightarrow> bool" where
  "same_agent incoming best \<longleftrightarrow>
     agent_id incoming \<noteq> [] \<and> agent_id best \<noteq> [] \<and> agent_id best = agent_id incoming"

definition no_crossing :: "order \<Rightarrow> order \<Rightarrow> bool" where
  "no_crossing incoming best \<longleftrightarrow>
     side incoming = ''buy'' \<and> order_price incoming < order_price best \<or>
     side incoming = ''sell'' \<and> order_price incoming > order_price best"

text \<open>
  A call of \<open>place_order\<close> with its arguments and the order id and timestamp the
  constructor draws; a sequence of calls on one book, where a call that raises leaves
  the book to the next call as it is.
\<close>

record call =
  call_price :: real
  call_volume :: int
  call_side :: string
  call_order_type :: string
  call_agent_id :: string
  call_fresh :: "string \<times> real"

definition place_call :: "order_book \<Rightarrow> call \<Rightarrow> (error + trade list) \<times> order_book" where
  "place_call book c =
     place_order book (call_price c) (call_volume c) (call_side c) (call_order_type c)
       (call_agent_id c) (call_fresh c)"

definition run_calls :: "order_book \<Rightarrow> call list \<Rightarrow> order_book" where
  "run_calls book cs = foldl (\<lambda>b c. snd (place_call b c)) book cs"

text \<open>The side of the book an order of side \<open>sd\<close> is matched against.\<close>

definition opposite_side :: "string \<Rightarrow> order_book \<Rightarrow> order list" where
  "opposite_side sd book = (if sd = ''buy'' then asks book else bids book)"

text \<open>An order without its remaining quantity, the one field that fills change.\<close>

definition without_quantity :: "order \<Rightarrow> order" where
  "without_quantity ord = ord\<lparr>quantity := 0\<rparr>"

text \<open>The id a trade records for the resting order, given the incoming order's side.\<close>

definition resting_order_id :: "string \<Rightarrow> trade \<Rightarrow> string" where
  "resting_order_id sd t = (if sd = ''buy'' then seller_order t else buyer_order t)"

text \<open>
  What holds of every book the code builds: each side is a heap of orders of that side,
  and a resting bid meets or exceeds a resting ask in price only when both belong to one
  participant with a non-empty id.
\<close>

definition heap_ok :: "order list \<Rightarrow> bool" where
  "heap_ok heap \<longleftrightarrow> sorted (map order_key heap)"

definition book_inv :: "order_book \<Rightarrow> bool" where
  "book_inv book \<longleftrightarrow>
     heap_ok (bids book) \<and> heap_ok (asks book) \<and>
     (\<forall>b \<in> set (bids book). side b = ''buy'') \<and>
     (\<forall>a \<in> set (asks book). side a \<noteq> ''buy'') \<and>
     (\<forall>b \<in> set (bids book). \<forall>a \<in> set (asks book).
        order_price a \<le> order_price b \<longrightarrow> agent_id b = agent_id a \<and> agent_id b \<noteq> [])"

text \<open>Example calls: participant \<open>A\<close> bids 101 and then offers at 100.\<close>

definition call_buy_A :: call where
  "call_buy_A = \<lparr>call_price = 101, call_volume = 5, call_side = ''buy'',
      call_order_type = ''limit'', call_agent_id = ''A'', call_fresh = (''o'', 0)\<rparr>"

definition call_sell_A :: call where
  "call_sell_A = \<lparr>call_price = 100, call_volume = 5, call_side = ''sell'',
      call_order_type = ''limit'', call_agent_id = ''A'', call_fresh = (''oo'', 1)\<rparr>"

definition book_self_crossed :: order_book where
  "book_self_crossed = run_calls (OrderBook_init ''X'') [call_buy_A, call_sell_A]"

text \<open>
  The trades \<open>new\<close> of one placement of the incoming order \<open>incoming\<close> against the heap
  \<open>opposite\<close>: each is priced at the incoming order's price, and its volume is the
  smaller of what is left of the incoming order after the trades before it and the
  quantity of the resting order it names.
\<close>

definition fills_ok :: "order \<Rightarrow> order list \<Rightarrow> trade list \<Rightarrow> bool" where
  "fills_ok incoming opposite new \<longleftrightarrow>
     (\<forall>k < length new.
        trade_price (new ! k) = order_price incoming \<and>
        (\<exists>r \<in> set opposite.
           order_id r = resting_order_id (side incoming) (new ! k) \<and>
           volume (new ! k) =
             min (quantity incoming - sum_list (map volume (take k new))) (quantity r)))"

text \<open>
  A book with two resting asks, 2 at 99 by \<open>A\<close> and 4 at 100 by \<open>B\<close>; and a book with one
  resting bid of 5 at 100 by a participant with the empty id.
\<close>

definition call_sell_A99 :: call where
  "call_sell_A99 = \<lparr>call_price = 99, call_volume = 2, call_side = ''sell'',
      call_order_type = ''limit'', call_agent_id = ''A'', call_fresh = (''o'', 0)\<rparr>"

definition call_sell_B100 :: call where
  "call_sell_B100 = \<lparr>call_price = 100, call_volume = 4, call_side = ''sell'',
      call_order_type = ''limit'', call_agent_id = ''B'', call_fresh = (''oo'', 1)\<rparr>"

definition book_two_asks :: order_book where
  "book_two_asks = run_calls (OrderBook_init ''X'') [call_sell_A99, call_sell_B100]"

definition call_buy_anon :: call where
  "call_buy_anon = \<lparr>call_price = 100, call_volume = 5, call_side = ''buy'',
      call_order_type = ''limit'', call_agent_id = [], call_fresh = (''o'', 0)\<rparr>"

definition book_anon_bid :: order_book where
  "book_anon_bid = run_calls (OrderBook_init ''X'') [call_buy_anon]"

section \<open>Evaluation and frame lemmas\<close>

lemmas eval_defs =
  tick_def submit_order_def env_X_def env_AB_def env_anon_def req_buy_A_def req_sell_B_def
  req_unknown_def req_buy_anon_def req_sell_anon_def fresh_ids_def trade_AB_def trade_self_def
  Environment_init_def Instrument_init_def OrderBook_init_def process_orders_def place_order_def
  place_limit_order_def match_against_def match_loop.simps add_to_book_def heappush_def
  update_prices_def get_state_def update_accounts_def update_accounts_with_def exact_arith_def
  add_account_def modify_account_def
  position_def make_trade_def stamp_tail_def cash_or_start_def result_trades_def Let_def

lemma update_accounts_frame [simp]:
  "env_time (update_accounts env t) = env_time env"
  "instruments (update_accounts env t) = instruments env"
  "pending_orders (update_accounts env t) = pending_orders env"
  "trade_log (update_accounts env t) = trade_log env"
  "addr_accounts (update_accounts env t) = addr_accounts env"
  by (simp_all add: update_accounts_def update_accounts_with_def add_account_def Let_def)

lemma settle_loop_frame:
  "settle_loop env tr acc = (acc', env') \<Longrightarrow>
     env_time env' = env_time env \<and> instruments env' = instruments env \<and>
     pending_orders env' = pending_orders env \<and> trade_log env' = trade_log env"
  by (induction env tr acc rule: settle_loop.induct) (auto simp: Let_def)

lemma settle_loop_trades:
  "settle_loop env tr acc = (acc', env') \<Longrightarrow>
     acc' = acc @ map (\<lambda>t. t\<lparr>trade_time := Some (env_time env)\<rparr>) tr"
  by (induction env tr acc rule: settle_loop.induct) (auto simp: Let_def)

text \<open>
  One iteration of the outer loop of \<open>process_orders\<close>, as a rule: either it raises and
  leaves the environment as it is, or it settles the request's trades and runs the rest.
\<close>

lemma process_loop_step:
  assumes "process_loop fresh i env (req # rest) acc = (res, env')"
  shows "(\<exists>e. res = Inl e \<and> env' = env) \<or>
         (\<exists>inst tr book' acc1 env2.
            map_of (instruments env) (req_symbol req) = Some inst \<and>
            place_order (order_book inst) (req_price req) (req_volume req) (req_side req)
               (case req_order_type req of None \<Rightarrow> ''limit'' | Some k \<Rightarrow> k)
               (case req_agent_id req of None \<Rightarrow> ''unknown'' | Some a \<Rightarrow> a)
               (fresh i) = (Inr tr, book') \<and>
            settle_loop
              (env\<lparr>instruments :=
                  set_instrument (instruments env) (req_symbol req)
                    (inst\<lparr>order_book :=
                       book'\<lparr>trades := stamp_tail (env_time env) (length tr) (trades book')\<rparr>\<rparr>)\<rparr>)
              tr acc = (acc1, env2) \<and>
            process_loop fresh (Suc i) env2 rest acc1 = (res, env'))"
proof (cases "map_of (instruments env) (req_symbol req)")
  case None
  with assms show ?thesis by auto
next
  case (Some inst)
  obtain r book' where po:
    "place_order (order_book inst) (req_price req) (req_volume req) (req_side req)
       (case req_order_type req of None \<Rightarrow> ''limit'' | Some k \<Rightarrow> k)
       (case req_agent_id req of None \<Rightarrow> ''unknown'' | Some a \<Rightarrow> a)
       (fresh i) = (r, book')"
    by force
  show ?thesis
  proof (cases r)
    case (Inl e)
    with assms Some po show ?thesis by auto
  next
    case (Inr tr)
    obtain acc1 env2 where sl:
      "settle_loop
         (env\<lparr>instruments :=
             set_instrument (instruments env) (req_symbol req)
               (inst\<lparr>order_book :=
                  book'\<lparr>trades := stamp_tail (env_time env) (length tr) (trades book')\<rparr>\<rparr>)\<rparr>)
         tr acc = (acc1, env2)"
      by force
    with assms Some po Inr
    have "process_loop fresh (Suc i) env2 rest acc1 = (res, env')"
      by (simp add: Let_def)
    with Some po Inr sl show ?thesis by blast
  qed
qed

lemma process_loop_frame:
  "process_loop fresh i env reqs acc = (res, env') \<Longrightarrow>
     env_time env' = env_time env \<and> pending_orders env' = pending_orders env \<and>
     trade_log env' = trade_log env"
proof (induction reqs arbitrary: i env acc)
  case Nil
  then show ?case by auto
next
  case (Cons req rest)
  from process_loop_step[OF Cons.prems] show ?case
  proof (elim disjE exE conjE)
    fix e assume "res = Inl e" "env' = env"
    then show ?thesis by simp
  next
    fix inst tr book' acc1 env2
    assume sl: "settle_loop
              (env\<lparr>instruments :=
                  set_instrument (instruments env) (req_symbol req)
                    (inst\<lparr>order_book :=
                       book'\<lparr>trades := stamp_tail (env_time env) (length tr) (trades book')\<rparr>\<rparr>)\<rparr>)
              tr acc = (acc1, env2)"
      and rec: "process_loop fresh (Suc i) env2 rest acc1 = (res, env')"
    from settle_loop_frame[OF sl] Cons.IH[OF rec] show ?thesis by simp
  qed
qed

lemma process_loop_stamped:
  "process_loop fresh i env reqs acc = (Inr all_trades, env') \<Longrightarrow>
     \<exists>new. all_trades = acc @ new \<and> (\<forall>t \<in> set new. trade_time t = Some (env_time env))"
proof (induction reqs arbitrary: i env acc)
  case Nil
  then show ?case by auto
next
  case (Cons req rest)
  from process_loop_step[OF Cons.prems] show ?case
  proof (elim disjE exE conjE)
    fix e assume "Inr all_trades = Inl e"
    then show ?thesis by simp
  next
    fix inst tr book' acc1 env2
    assume sl: "settle_loop
              (env\<lparr>instruments :=
                  set_instrument (instruments env) (req_symbol req)
                    (inst\<lparr>order_book :=
                       book'\<lparr>trades := stamp_tail (env_time env) (length tr) (trades book')\<rparr>\<rparr>)\<rparr>)
              tr acc = (acc1, env2)"
      and rec: "process_loop fresh (Suc i) env2 rest acc1 = (Inr all_trades, env')"
    have t2: "env_time env2 = env_time env"
      using settle_loop_frame[OF sl] by simp
    have a1: "acc1 = acc @ map (\<lambda>t. t\<lparr>trade_time := Some (env_time env)\<rparr>) tr"
      using settle_loop_trades[OF sl] by simp
    from Cons.IH[OF rec] obtain new where
      n: "all_trades = acc1 @ new" "\<forall>t \<in> set new. trade_time t = Some (env_time env)"
      using t2 by auto
    show ?thesis
      by (rule exI[of _ "map (\<lambda>t. t\<lparr>trade_time := Some (env_time env)\<rparr>) tr @ new"])
         (use n a1 in auto)
  qed
qed

section \<open>Claims about the environment\<close>

text \<open>
  C9. \<open>place_order\<close> raises exactly when the order kind is neither \<open>limit\<close> nor
  \<open>market\<close>; the exception is the \<open>ValueError\<close> naming the kind, and the book after the
  call is the book before it (both sides and the trade buffer included).
\<close>

theorem place_order_invalid_kind:
  "((\<exists>e. fst (place_order book price vol sd otype agent fresh) = Inl e)
      \<longleftrightarrow> (otype \<noteq> ''limit'' \<and> otype \<noteq> ''market'')) \<and>
   (otype \<noteq> ''limit'' \<and> otype \<noteq> ''market'' \<longrightarrow>
      place_order book price vol sd otype agent fresh
        = (Inl (ValueError (''Unknown order type: '' @ otype)), book))"
  by (auto simp: place_order_def Let_def split: prod.splits)

theorem place_order_invalid_kind_witness:
  "''stop'' \<noteq> ''limit'' \<and> ''stop'' \<noteq> ''market'' \<and>
   place_order (order_book (Instrument_init ''X'' 100)) 101 5 ''buy'' ''stop'' ''A'' (''o'', 0)
     = (Inl (ValueError ''Unknown order type: stop''), order_book (Instrument_init ''X'' 100))"
  using place_order_invalid_kind
          [of "order_book (Instrument_init ''X'' 100)" 101 5 "''buy''" "''stop''" "''A''" "(''o'', 0)"]
  by simp

text \<open>
  C6 (as amended). Settlement of one trade by \<open>update_accounts\<close>, whatever the float
  operations round to (price, cash and the results being finite numbers), and with no
  solvency check. A participant of the trade that has
  no account is given one with cash 1000000 first. Let \<open>v\<close> be the float product of price
  and volume. When buyer and seller differ, the buyer's cash becomes the float difference
  of its cash and \<open>v\<close>, and the buyer's position in the symbol goes up by exactly the
  volume; the seller's cash becomes the float sum of its cash and \<open>v\<close>, and the seller's
  position goes down by exactly the volume. When buyer and seller are the same
  participant both updates hit the same account: its position is unchanged and its cash
  is the float sum of \<open>v\<close> and the float difference of the cash and \<open>v\<close>. The accounts of
  all other participants are as before.

  With operations that do not round, as for the cash 1000000, price 100 and volume 5 of
  the witness, the cash changes by exactly price times volume when buyer and seller
  differ, and not at all when they are the same.
\<close>

theorem update_accounts_settles:
  "(buyer t \<noteq> seller t \<longrightarrow>
      map_option cash (agent_accounts (update_accounts_with arith env t) (buyer t))
        = Some (fl_sub arith (cash_or_start (agent_accounts env) (buyer t))
                  (fl_mul arith (trade_price t) (volume t))) \<and>
      position (agent_accounts (update_accounts_with arith env t)) (buyer t) (trade_symbol t)
        = position (agent_accounts env) (buyer t) (trade_symbol t) + volume t \<and>
      map_option cash (agent_accounts (update_accounts_with arith env t) (seller t))
        = Some (fl_add arith (cash_or_start (agent_accounts env) (seller t))
                  (fl_mul arith (trade_price t) (volume t))) \<and>
      position (agent_accounts (update_accounts_with arith env t)) (seller t) (trade_symbol t)
        = position (agent_accounts env) (seller t) (trade_symbol t) - volume t) \<and>
   (buyer t = seller t \<longrightarrow>
      map_option cash (agent_accounts (update_accounts_with arith env t) (buyer t))
        = Some (fl_add arith
                  (fl_sub arith (cash_or_start (agent_accounts env) (buyer t))
                     (fl_mul arith (trade_price t) (volume t)))
                  (fl_mul arith (trade_price t) (volume t))) \<and>
      position (agent_accounts (update_accounts_with arith env t)) (buyer t) (trade_symbol t)
        = position (agent_accounts env) (buyer t) (trade_symbol t)) \<and>
   (\<forall>c. c \<noteq> buyer t \<and> c \<noteq> seller t \<longrightarrow>
      agent_accounts (update_accounts_with arith env t) c = agent_accounts env c)"
  by (auto simp: update_accounts_with_def add_account_def modify_account_def position_def
        cash_or_start_def Let_def split: option.splits)

theorem update_accounts_settles_witness:
  "buyer trade_AB \<noteq> seller trade_AB \<and>
   map_option cash (agent_accounts (update_accounts_with exact_arith env_X trade_AB) ''A'')
     = Some (1000000 - 100 * 5) \<and>
   position (agent_accounts (update_accounts_with exact_arith env_X trade_AB)) ''A'' ''X'' = 5 \<and>
   map_option cash (agent_accounts (update_accounts_with exact_arith env_X trade_AB) ''B'')
     = Some (1000000 + 100 * 5) \<and>
   position (agent_accounts (update_accounts_with exact_arith env_X trade_AB)) ''B'' ''X'' = - 5 \<and>
   ''C'' \<noteq> buyer trade_AB \<and> ''C'' \<noteq> seller trade_AB \<and>
   agent_accounts (update_accounts_with exact_arith env_X trade_AB) ''C'' = None \<and>
   buyer trade_self = seller trade_self \<and>
   map_option cash (agent_accounts (update_accounts_with exact_arith env_X trade_self) [])
     = Some (1000000 - 100 * 5 + 100 * 5) \<and>
   position (agent_accounts (update_accounts_with exact_arith env_X trade_self)) [] ''X'' = 0"
proof -
  have a: "buyer trade_AB = ''A''" "seller trade_AB = ''B''"
    "trade_symbol trade_AB = ''X''" "trade_price trade_AB = 100" "volume trade_AB = 5"
    by (simp_all add: trade_AB_def)
  have s: "buyer trade_self = []" "seller trade_self = []" "trade_symbol trade_self = ''X''"
    "trade_price trade_self = 100" "volume trade_self = 5"
    by (simp_all add: trade_self_def)
  have e: "agent_accounts env_X = Map.empty"
    by (simp add: env_X_def Environment_init_def)
  have x: "fl_mul exact_arith 100 5 = 500" "\<And>c v. fl_sub exact_arith c v = c - v"
    "\<And>c v. fl_add exact_arith c v = c + v"
    by (simp_all add: exact_arith_def)
  from update_accounts_settles[of trade_AB exact_arith env_X]
       update_accounts_settles[of trade_self exact_arith env_X]
  show ?thesis
    by (simp add: a s e x cash_or_start_def position_def)
qed

text \<open>
  Two anonymous limit orders at price 100 for volume 5 trade with each other in one
  \<open>tick\<close>. Buyer and seller of the trade are the same participant, whose cash and
  position are afterwards what they were: they have not changed by 500 and by 5. The
  doubles involved (1000000, 500, 999500) are computed without rounding.
\<close>

theorem settlement_self_trade_counterexample:
  "map (\<lambda>t. (buyer t, seller t, trade_price t, volume t))
      (result_trades (fst (tick fresh_ids env_anon))) = [([], [], 100, 5)] \<and>
   cash_or_start (agent_accounts env_anon) [] = 1000000 \<and>
   map_option cash (agent_accounts (snd (tick fresh_ids env_anon)) []) = Some 1000000 \<and>
   position (agent_accounts env_anon) [] ''X'' = 0 \<and>
   position (agent_accounts (snd (tick fresh_ids env_anon))) [] ''X'' = 0"
  by (simp add: eval_defs)

text \<open>
  C7 (as amended). \<open>tick\<close> increments the counter as its first step: whether or not the
  call raises, the counter afterwards is one more than before, and on success the
  returned time and the stamp of every returned trade are that incremented value.
\<close>

theorem tick_stamps_incremented_time:
  "env_time (snd (tick fresh env)) = env_time env + 1 \<and>
   (\<forall>r. fst (tick fresh env) = Inr r \<longrightarrow>
      tick_time r = env_time env + 1 \<and>
      (\<forall>t \<in> set (tick_trades r). trade_time t = Some (env_time env + 1)))"
proof -
  define env1 where "env1 = env\<lparr>env_time := env_time env + 1\<rparr>"
  obtain res envl where pl: "process_loop fresh 0 env1 (pending_orders env1) [] = (res, envl)"
    by force
  have fr: "env_time envl = env_time env + 1"
    using process_loop_frame[OF pl] by (simp add: env1_def)
  show ?thesis
  proof (cases res)
    case (Inl e)
    with pl fr show ?thesis
      by (simp add: tick_def process_orders_def env1_def[symmetric] Let_def)
  next
    case (Inr tr)
    from process_loop_stamped[of fresh 0 env1 "pending_orders env1" "[]" tr envl] pl Inr
    have st: "\<forall>t \<in> set tr. trade_time t = Some (env_time env + 1)"
      by (auto simp: env1_def)
    with pl fr Inr show ?thesis
      by (auto simp: tick_def process_orders_def env1_def[symmetric] Let_def
            update_prices_def get_state_def)
  qed
qed

theorem tick_stamps_incremented_time_witness:
  "env_time env_AB = 0 \<and> env_time (snd (tick fresh_ids env_AB)) = 1 \<and>
   map tick_time (projr (fst (tick fresh_ids env_AB)) # []) = [1] \<and>
   length (result_trades (fst (tick fresh_ids env_AB))) = 1 \<and>
   map trade_time (result_trades (fst (tick fresh_ids env_AB))) = [Some 1]"
proof -
  have t0: "env_time env_AB = 0"
    by (simp add: env_AB_def env_X_def submit_order_def Environment_init_def)
  obtain r where r: "fst (tick fresh_ids env_AB) = Inr r" "length (tick_trades r) = 1"
    by (simp add: eval_defs)
  from tick_stamps_incremented_time[of fresh_ids env_AB] r t0
  have "env_time (snd (tick fresh_ids env_AB)) = 1" "tick_time r = 1"
    "\<forall>t \<in> set (tick_trades r). trade_time t = Some 1"
    by auto
  moreover obtain t where "tick_trades r = [t]"
    using r(2) by (cases "tick_trades r") auto
  ultimately show ?thesis
    using t0 r by (auto simp: result_trades_def)
qed

theorem tick_stamp_counterexample:
  "env_time env_AB = 0 \<and>
   map trade_time (result_trades (fst (tick fresh_ids env_AB))) = [Some 1] \<and>
   map trade_time (result_trades (fst (tick fresh_ids env_AB))) \<noteq> [Some 0]"
  by (simp add: eval_defs)

text \<open>
  C3 (as amended). \<open>submit_order\<close> validates nothing: it appends every request to the
  pending queue and changes nothing else. A request whose symbol is not an instrument is
  queued like any other; when it is the only pending request, the next \<open>tick\<close> raises
  \<open>KeyError\<close> for that symbol.
\<close>

theorem submit_order_queues_unvalidated:
  "pending_orders (submit_order env req) = pending_orders env @ [req] \<and>
   instruments (submit_order env req) = instruments env \<and>
   agent_accounts (submit_order env req) = agent_accounts env \<and>
   env_time (submit_order env req) = env_time env \<and>
   trade_log (submit_order env req) = trade_log env \<and>
   (map_of (instruments env) (req_symbol req) = None \<and> pending_orders env = [] \<longrightarrow>
      fst (tick fresh (submit_order env req)) = Inl (KeyError (req_symbol req)))"
  by (simp add: submit_order_def tick_def process_orders_def Let_def)

theorem submit_order_queues_unvalidated_witness:
  "map_of (instruments env_X) (req_symbol req_unknown) = None \<and> pending_orders env_X = [] \<and>
   pending_orders (submit_order env_X req_unknown) = [req_unknown] \<and>
   fst (tick fresh_ids (submit_order env_X req_unknown)) = Inl (KeyError ''NOPE'')"
proof -
  have h: "map_of (instruments env_X) (req_symbol req_unknown) = None" "pending_orders env_X = []"
    "req_symbol req_unknown = ''NOPE''"
    by (simp_all add: env_X_def req_unknown_def Environment_init_def)
  from submit_order_queues_unvalidated[of env_X req_unknown fresh_ids] h
  show ?thesis by simp
qed

theorem submit_order_unknown_symbol_counterexample:
  "map_of (instruments env_X) ''NOPE'' = None \<and> req_symbol req_unknown = ''NOPE'' \<and>
   pending_orders (submit_order env_X req_unknown) = [req_unknown] \<and>
   fst (tick fresh_ids (submit_order env_X req_unknown)) = Inl (KeyError ''NOPE'')"
  by (simp add: eval_defs)

subsection \<open>Accounts and the connection handler\<close>







text \<open>
  \<open>get_state\<close> and \<open>submit_order\<close> open no account themselves: called with a participant
  id that has no account, \<open>get_state\<close> raises \<open>KeyError\<close>. The guard is the handler's.
\<close>

lemma get_state_no_account:
  "a \<noteq> [] \<Longrightarrow> agent_accounts env a = None \<Longrightarrow> get_state env (Some (Agent a)) = Inl (KeyError a)"
  by (simp add: get_state_def Let_def)

lemma submit_order_accounts:
  "agent_accounts (submit_order env req) = agent_accounts env"
  "addr_accounts (submit_order env req) = addr_accounts env"
  by (simp_all add: submit_order_def)






text \<open>
  C4 (as amended). The end-to-end example: instrument \<open>X\<close> with an empty book, a buy of 5
  at 101 by \<open>A\<close> and then a sell of 5 at 100 by \<open>B\<close>, one \<open>tick\<close>. There is exactly one
  trade, at price 100 (the price of the sell, the order processed second), volume 5,
  buyer \<open>A\<close>, seller \<open>B\<close>; \<open>A\<close> holds 5 and \<open>B\<close> holds -5 of \<open>X\<close>; \<open>A\<close>'s cash is the
  starting balance less 500 and \<open>B\<close>'s is the starting balance plus 500.
\<close>

theorem end_to_end_example:
  "result_trades (fst (tick fresh_ids env_AB)) =
     [\<lparr>trade_price = 100, volume = 5, trade_symbol = ''X'', buyer = ''A'', seller = ''B'',
       buyer_order = ''o'', seller_order = ''oo'', trade_time = Some 1\<rparr>] \<and>
   position (agent_accounts (snd (tick fresh_ids env_AB))) ''A'' ''X'' = 5 \<and>
   position (agent_accounts (snd (tick fresh_ids env_AB))) ''B'' ''X'' = - 5 \<and>
   cash_or_start (agent_accounts env_AB) ''A'' = 1000000 \<and>
   cash_or_start (agent_accounts env_AB) ''B'' = 1000000 \<and>
   map_option cash (agent_accounts (snd (tick fresh_ids env_AB)) ''A'')
     = Some (1000000 - 5 * 100) \<and>
   map_option cash (agent_accounts (snd (tick fresh_ids env_AB)) ''B'')
     = Some (1000000 + 5 * 100)"
  by (simp add: eval_defs)

theorem end_to_end_price_counterexample:
  "pending_orders env_AB = [req_buy_A, req_sell_B] \<and>
   map trade_price (result_trades (fst (tick fresh_ids env_AB))) = [100] \<and>
   map trade_price (result_trades (fst (tick fresh_ids env_AB))) \<noteq> [101]"
  by (simp add: eval_defs)

subsection \<open>Prices through \<open>process_orders\<close> and \<open>update_prices\<close>\<close>

lemma set_instrument_prices:
  "map_of insts k = Some inst \<Longrightarrow>
     map (\<lambda>(symb, i). (symb, inst_price i)) (set_instrument insts k (inst\<lparr>order_book := b\<rparr>))
       = map (\<lambda>(symb, i). (symb, inst_price i)) insts"
  by (induction insts k "inst\<lparr>order_book := b\<rparr>" rule: set_instrument.induct)
     (auto split: if_splits)

lemma process_loop_prices:
  "process_loop fresh i env reqs acc = (res, env') \<Longrightarrow> prices_of env' = prices_of env"
proof (induction reqs arbitrary: i env acc)
  case Nil
  then show ?case by auto
next
  case (Cons req rest)
  from process_loop_step[OF Cons.prems] show ?case
  proof (elim disjE exE conjE)
    fix e assume "res = Inl e" "env' = env"
    then show ?thesis by simp
  next
    fix inst tr book' acc1 env2
    assume look: "map_of (instruments env) (req_symbol req) = Some inst"
      and sl: "settle_loop
              (env\<lparr>instruments :=
                  set_instrument (instruments env) (req_symbol req)
                    (inst\<lparr>order_book :=
                       book'\<lparr>trades := stamp_tail (env_time env) (length tr) (trades book')\<rparr>\<rparr>)\<rparr>)
              tr acc = (acc1, env2)"
      and rec: "process_loop fresh (Suc i) env2 rest acc1 = (res, env')"
    have "prices_of env2 = prices_of env"
      using settle_loop_frame[OF sl] set_instrument_prices[OF look]
      by (simp add: prices_of_def)
    with Cons.IH[OF rec] show ?thesis by simp
  qed
qed

lemma update_prices_untraded:
  "\<forall>t \<in> set (trade_log env). trade_symbol t \<noteq> symb \<Longrightarrow>
     map_of (prices_of (update_prices env)) symb = map_of (prices_of env) symb"
proof -
  assume a: "\<forall>t \<in> set (trade_log env). trade_symbol t \<noteq> symb"
  have f: "filter (\<lambda>t. trade_symbol t = symb \<and> trade_time t = Some (env_time env))
             (trade_log env) = []"
    using a by (auto simp: filter_empty_conv)
  have "map_of (map (\<lambda>(s, i). (s, inst_price i))
          (map (\<lambda>(s, inst).
              (let ts = filter (\<lambda>t. trade_symbol t = s \<and> trade_time t = Some (env_time env))
                          (trade_log env)
               in (s, if ts \<noteq> [] then inst\<lparr>inst_price := trade_price (last ts)\<rparr> else inst)))
            insts)) symb
        = map_of (map (\<lambda>(s, i). (s, inst_price i)) insts) symb" for insts
    by (induction insts) (auto simp: f Let_def)
  then show ?thesis
    by (simp add: prices_of_def update_prices_def)
qed

text \<open>
  C10. \<open>reset\<close> leaves the pending queue and every instrument's price as they are. The
  first \<open>tick\<close> after the reset therefore runs the matching loop over exactly the
  requests queued before the reset (and then empties the queue), and an instrument that
  no trade of that tick names still has its price from before the reset.
\<close>

theorem reset_keeps_queue_and_prices:
  "pending_orders (snd (reset env)) = pending_orders env \<and>
   prices_of (snd (reset env)) = prices_of env \<and>
   (\<forall>r. fst (tick fresh (snd (reset env))) = Inr r \<longrightarrow>
      fst (process_loop fresh 0 ((snd (reset env))\<lparr>env_time := 1\<rparr>) (pending_orders env) [])
        = Inr (tick_trades r) \<and>
      pending_orders (snd (tick fresh (snd (reset env)))) = []) \<and>
   (\<forall>symb. symb \<notin> trade_symbol ` set (result_trades (fst (tick fresh (snd (reset env))))) \<longrightarrow>
      map_of (prices_of (snd (tick fresh (snd (reset env))))) symb = map_of (prices_of env) symb)"
proof -
  define env0 where "env0 = snd (reset env)"
  define env1 where "env1 = env0\<lparr>env_time := 1\<rparr>"
  have q: "pending_orders env0 = pending_orders env"
    and p: "prices_of env0 = prices_of env"
    and t: "env_time env0 = 0" and l: "trade_log env0 = []"
    by (simp_all add: env0_def reset_def Let_def prices_of_def split_def o_def)
  have e1: "env0\<lparr>env_time := env_time env0 + 1\<rparr> = env1"
    by (simp add: env1_def t)
  obtain res envl where pl: "process_loop fresh 0 env1 (pending_orders env) [] = (res, envl)"
    by force
  have fr: "trade_log envl = []" "prices_of envl = prices_of env"
    using process_loop_frame[OF pl] process_loop_prices[OF pl] l p
    by (simp_all add: env1_def prices_of_def)
  have pq: "pending_orders env1 = pending_orders env"
    by (simp add: env1_def q)
  have main: "(\<forall>r. fst (tick fresh env0) = Inr r \<longrightarrow>
      fst (process_loop fresh 0 env1 (pending_orders env) []) = Inr (tick_trades r) \<and>
      pending_orders (snd (tick fresh env0)) = []) \<and>
   (\<forall>symb. symb \<notin> trade_symbol ` set (result_trades (fst (tick fresh env0))) \<longrightarrow>
      map_of (prices_of (snd (tick fresh env0))) symb = map_of (prices_of env) symb)"
  proof (cases res)
    case (Inl e)
    with pl fr show ?thesis
      by (simp add: tick_def process_orders_def e1 pq Let_def result_trades_def)
  next
    case (Inr tr)
    define env2 where "env2 = (if tr \<noteq> [] then envl\<lparr>pending_orders := [], trade_log := tr\<rparr>
                               else envl\<lparr>pending_orders := []\<rparr>)"
    have po: "process_orders fresh env1 = (Inr tr, env2)"
      using pl Inr fr by (simp add: process_orders_def pq Let_def env2_def)
    have l2: "set (trade_log env2) \<subseteq> set tr" and p2: "prices_of env2 = prices_of env"
      and q2: "pending_orders env2 = []"
      using fr by (auto simp: env2_def prices_of_def)
    have tk: "tick fresh env0 =
        (Inr \<lparr>tick_time = env_time (update_prices env2), tick_trades = tr,
              tick_state = projr (get_state (update_prices env2) None)\<rparr>, update_prices env2)"
      using po by (simp add: tick_def e1 Let_def get_state_def)
    have up: "map_of (prices_of (update_prices env2)) symb = map_of (prices_of env) symb"
      if "symb \<notin> trade_symbol ` set tr" for symb
      using update_prices_untraded[of env2 symb] that l2 p2 by auto
    have q3: "pending_orders (update_prices env2) = []"
      using q2 by (simp add: update_prices_def)
    show ?thesis
      using pl Inr up q3 by (simp add: tk result_trades_def)
  qed
  show ?thesis
    using q p main unfolding env0_def env1_def by simp
qed

theorem reset_keeps_queue_and_prices_witness:
  "pending_orders (snd (reset env_XY)) = [req_buy_A, req_sell_B] \<and>
   prices_of (snd (reset env_XY)) = [(''X'', 90), (''Y'', 150)] \<and>
   map trade_symbol (result_trades (fst (tick fresh_ids (snd (reset env_XY))))) = [''X''] \<and>
   pending_orders (snd (tick fresh_ids (snd (reset env_XY)))) = [] \<and>
   map_of (prices_of (snd (tick fresh_ids (snd (reset env_XY))))) ''Y'' = Some 150"
proof -
  have q: "pending_orders env_XY = [req_buy_A, req_sell_B]"
    and p: "prices_of env_XY = [(''X'', 90), (''Y'', 150)]"
    by (simp_all add: env_XY_def submit_order_def Environment_init_def Instrument_init_def
          prices_of_def)
  obtain r where r: "fst (tick fresh_ids (snd (reset env_XY))) = Inr r"
    "map trade_symbol (tick_trades r) = [''X'']"
    by (simp add: eval_defs env_XY_def reset_def)
  have n: "''Y'' \<notin> trade_symbol ` set (result_trades (fst (tick fresh_ids (snd (reset env_XY)))))"
    using r(2) by (simp add: r(1) result_trades_def flip: set_map)
  from reset_keeps_queue_and_prices[of env_XY fresh_ids] r n q p
  show ?thesis
    by (simp add: result_trades_def)
qed

section \<open>The matching loops\<close>

text \<open>The four ways one iteration of the loop of \<open>_match_against\<close> can go.\<close>

lemma match_loop_unfold:
  "match_loop symb tk inc opp sk tr =
     (if quantity inc > 0 \<and> opp \<noteq> [] then
        if same_agent inc (hd opp) then match_loop symb tk inc (tl opp) (sk @ [hd opp]) tr
        else if no_crossing inc (hd opp) then (inc, opp, sk, tr)
        else match_loop symb tk
               (inc\<lparr>quantity := quantity inc - min (quantity inc) (quantity (hd opp))\<rparr>)
               (if quantity ((hd opp)\<lparr>quantity :=
                          quantity (hd opp) - min (quantity inc) (quantity (hd opp))\<rparr>) > 0
                then heappush (tl opp)
                       ((hd opp)\<lparr>quantity :=
                          quantity (hd opp) - min (quantity inc) (quantity (hd opp))\<rparr>)
                else tl opp)
               sk
               (tr @ [make_trade symb tk inc (hd opp) (order_price inc)
                        (min (quantity inc) (quantity (hd opp)))])
      else (inc, opp, sk, tr))"
proof -
  have a: "(agent_id inc \<noteq> [] \<and> agent_id (hd opp) \<noteq> [] \<and> agent_id (hd opp) = agent_id inc)
             = same_agent inc (hd opp)"
    by (simp add: same_agent_def)
  have b: "(if side inc = ''buy'' \<and> order_price inc < order_price (hd opp) then x
            else if side inc = ''sell'' \<and> order_price inc > order_price (hd opp) then x else y)
           = (if no_crossing inc (hd opp) then x else y)" for x y :: "order \<times> order list \<times> order list \<times> trade list"
    by (simp add: no_crossing_def)
  show ?thesis
    by (subst match_loop.simps) (simp only: Let_def a b simp_thms)
qed

lemma match_loop_stop:
  "\<not> (quantity inc > 0 \<and> opp \<noteq> []) \<Longrightarrow> match_loop symb tk inc opp sk tr = (inc, opp, sk, tr)"
  by (subst match_loop_unfold) (simp only: if_False)

lemma match_loop_skip:
  "quantity inc > 0 \<Longrightarrow> same_agent inc best \<Longrightarrow>
     match_loop symb tk inc (best # rest) sk tr = match_loop symb tk inc rest (sk @ [best]) tr"
  by (subst match_loop_unfold) simp

lemma match_loop_break:
  "quantity inc > 0 \<Longrightarrow> \<not> same_agent inc best \<Longrightarrow> no_crossing inc best \<Longrightarrow>
     match_loop symb tk inc (best # rest) sk tr = (inc, best # rest, sk, tr)"
  by (subst match_loop_unfold) simp

lemma match_loop_trade:
  "quantity inc > 0 \<Longrightarrow> \<not> same_agent inc best \<Longrightarrow> \<not> no_crossing inc best \<Longrightarrow>
     v = min (quantity inc) (quantity best) \<Longrightarrow>
     match_loop symb tk inc (best # rest) sk tr =
       match_loop symb tk (inc\<lparr>quantity := quantity inc - v\<rparr>)
         (if quantity best - v > 0 then heappush rest (best\<lparr>quantity := quantity best - v\<rparr>)
          else rest)
         sk (tr @ [make_trade symb tk inc best (order_price inc) v])"
  by (subst match_loop_unfold) simp

text \<open>
  The loop by cases, as an induction rule over its runs: \<open>P\<close> relates a loop state to
  the state the loop ends in.
\<close>

lemma match_loop_rule [case_names stop skip break trade]:
  assumes stop: "\<And>inc opp sk tr. \<not> (quantity inc > 0 \<and> opp \<noteq> []) \<Longrightarrow> P inc opp sk tr (inc, opp, sk, tr)"
    and skip: "\<And>inc best rest sk tr res.
        \<lbrakk>quantity inc > 0; same_agent inc best; P inc rest (sk @ [best]) tr res\<rbrakk>
        \<Longrightarrow> P inc (best # rest) sk tr res"
    and break: "\<And>inc best rest sk tr.
        \<lbrakk>quantity inc > 0; \<not> same_agent inc best; no_crossing inc best\<rbrakk>
        \<Longrightarrow> P inc (best # rest) sk tr (inc, best # rest, sk, tr)"
    and trade: "\<And>inc best rest sk tr res v.
        \<lbrakk>quantity inc > 0; \<not> same_agent inc best; \<not> no_crossing inc best;
         v = min (quantity inc) (quantity best);
         P (inc\<lparr>quantity := quantity inc - v\<rparr>)
           (if quantity best - v > 0 then heappush rest (best\<lparr>quantity := quantity best - v\<rparr>)
            else rest)
           sk (tr @ [make_trade symb tk inc best (order_price inc) v]) res\<rbrakk>
        \<Longrightarrow> P inc (best # rest) sk tr res"
  shows "P inc opp sk tr (match_loop symb tk inc opp sk tr)"
proof (induction "length opp + (if quantity inc > 0 then 1 else 0)" arbitrary: inc opp sk tr
        rule: less_induct)
  case less
  show ?case
  proof (cases "quantity inc > 0 \<and> opp \<noteq> []")
    case False
    from stop[OF False] show ?thesis by (simp only: match_loop_stop[OF False])
  next
    case True
    then obtain best rest where opp: "opp = best # rest"
      by (cases opp) auto
    from True have q: "quantity inc > 0" by simp
    show ?thesis
    proof (cases "same_agent inc best")
      case sa: True
      have "P inc rest (sk @ [best]) tr (match_loop symb tk inc rest (sk @ [best]) tr)"
        by (rule less) (simp add: opp)
      from skip[OF q sa this] show ?thesis
        by (simp only: opp match_loop_skip[OF q sa])
    next
      case nsa: False
      show ?thesis
      proof (cases "no_crossing inc best")
        case nc: True
        from break[OF q nsa nc] show ?thesis
          by (simp only: opp match_loop_break[OF q nsa nc])
      next
        case cr: False
        define v where "v = min (quantity inc) (quantity best)"
        define inc' where "inc' = inc\<lparr>quantity := quantity inc - v\<rparr>"
        define opp' where "opp' =
          (if quantity best - v > 0 then heappush rest (best\<lparr>quantity := quantity best - v\<rparr>)
           else rest)"
        define tr' where "tr' = tr @ [make_trade symb tk inc best (order_price inc) v]"
        have "length opp' + (if quantity inc' > 0 then 1 else 0)
                < length opp + (if quantity inc > 0 then 1 else 0)"
          using q by (auto simp: opp opp'_def inc'_def v_def heappush_def min_def)
        then have "P inc' opp' sk tr' (match_loop symb tk inc' opp' sk tr')"
          by (rule less)
        from trade[OF q nsa cr v_def this[unfolded inc'_def opp'_def tr'_def]] show ?thesis
          by (simp only: opp match_loop_trade[OF q nsa cr v_def] inc'_def opp'_def tr'_def)
      qed
    qed
  qed
qed

subsection \<open>Heaps\<close>

lemma set_heappush [simp]: "set (heappush heap ord) = insert ord (set heap)"
  by (simp add: heappush_def set_insort_key)

lemma heap_ok_heappush: "heap_ok heap \<Longrightarrow> heap_ok (heappush heap ord)"
  by (simp add: heap_ok_def heappush_def sorted_insort_key)

lemma heap_ok_Nil [simp]: "heap_ok []"
  by (simp add: heap_ok_def)

lemma heap_ok_tl: "heap_ok (ord # heap) \<Longrightarrow> heap_ok heap"
  by (simp add: heap_ok_def)

lemma set_restore [simp]:
  "set (fold (\<lambda>ord heap. heappush heap ord) sk heap) = set sk \<union> set heap"
  by (induction sk arbitrary: heap) auto

lemma heap_ok_restore:
  "heap_ok heap \<Longrightarrow> heap_ok (fold (\<lambda>ord heap. heappush heap ord) sk heap)"
  by (induction sk arbitrary: heap) (auto simp: heap_ok_heappush)

lemma lex_fst_mono: "(p :: 'a::order \<times> 'b::order) \<le> q \<Longrightarrow> fst p \<le> fst q"
  by (auto simp: less_eq_prod_def)

text \<open>In a heap of asks the head has the lowest price, in a heap of bids the highest.\<close>

lemma heap_head_ask:
  assumes "heap_ok (ord # heap)" "\<forall>a \<in> set (ord # heap). side a \<noteq> ''buy''" "a \<in> set heap"
  shows "order_price ord \<le> order_price a"
proof -
  from assms have "order_key ord \<le> order_key a"
    by (auto simp: heap_ok_def)
  then have "fst (sort_index ord) \<le> fst (sort_index a)"
    using lex_fst_mono[of "order_key ord" "order_key a"]
      lex_fst_mono[of "sort_index ord" "sort_index a"]
    by (simp add: order_key_def)
  with assms show ?thesis
    by (auto simp: sort_index_def)
qed

lemma heap_head_bid:
  assumes "heap_ok (ord # heap)" "\<forall>b \<in> set (ord # heap). side b = ''buy''" "b \<in> set heap"
  shows "order_price b \<le> order_price ord"
proof -
  from assms have "order_key ord \<le> order_key b"
    by (auto simp: heap_ok_def)
  then have "fst (sort_index ord) \<le> fst (sort_index b)"
    using lex_fst_mono[of "order_key ord" "order_key b"]
      lex_fst_mono[of "sort_index ord" "sort_index b"]
    by (simp add: order_key_def)
  with assms show ?thesis
    by (auto simp: sort_index_def)
qed

subsection \<open>What the loop of \<open>_match_against\<close> leaves behind\<close>

lemma same_agent_quantity [simp]:
  "same_agent (inc\<lparr>quantity := q\<rparr>) ord = same_agent inc ord"
  "same_agent inc (ord\<lparr>quantity := q\<rparr>) = same_agent inc ord"
  by (simp_all add: same_agent_def)

lemma no_crossing_quantity [simp]:
  "no_crossing (inc\<lparr>quantity := q\<rparr>) ord = no_crossing inc ord"
  "no_crossing inc (ord\<lparr>quantity := q\<rparr>) = no_crossing inc ord"
  by (simp_all add: no_crossing_def)

lemma without_quantity_update [simp]:
  "without_quantity (ord\<lparr>quantity := q\<rparr>) = without_quantity ord"
  by (simp add: without_quantity_def)

lemma without_quantity_fields:
  assumes "without_quantity a = without_quantity b"
  shows "side a = side b" "order_price a = order_price b" "agent_id a = agent_id b"
    "order_id a = order_id b"
proof -
  have "side (without_quantity a) = side (without_quantity b)"
    "order_price (without_quantity a) = order_price (without_quantity b)"
    "agent_id (without_quantity a) = agent_id (without_quantity b)"
    "order_id (without_quantity a) = order_id (without_quantity b)"
    using assms by simp_all
  then show "side a = side b" "order_price a = order_price b" "agent_id a = agent_id b"
    "order_id a = order_id b"
    by (simp_all add: without_quantity_def)
qed

text \<open>
  The incoming order changes in its quantity only; every order left on the opposite side
  or set aside is an order that was there, up to its quantity; an order is set aside only
  for the incoming order's participant; and the opposite side is still a heap.
\<close>

lemma match_loop_shape:
  "case match_loop symb tk inc opp sk tr of (inc', opp', sk', tr') \<Rightarrow>
     without_quantity inc' = without_quantity inc \<and>
     without_quantity ` (set opp' \<union> set sk') \<subseteq> without_quantity ` (set opp \<union> set sk) \<and>
     (\<forall>s \<in> set sk'. s \<in> set sk \<or> same_agent inc s) \<and>
     (heap_ok opp \<longrightarrow> heap_ok opp')"
proof (rule match_loop_rule[where P = "\<lambda>inc opp sk tr res.
     case res of (inc', opp', sk', tr') \<Rightarrow>
     without_quantity inc' = without_quantity inc \<and>
     without_quantity ` (set opp' \<union> set sk') \<subseteq> without_quantity ` (set opp \<union> set sk) \<and>
     (\<forall>s \<in> set sk'. s \<in> set sk \<or> same_agent inc s) \<and>
     (heap_ok opp \<longrightarrow> heap_ok opp')"], goal_cases)
  case (1 inc opp sk tr)
  show ?case by simp
next
  case (2 inc best rest sk tr res)
  obtain inc' opp' sk' tr' where res: "res = (inc', opp', sk', tr')"
    by (cases res)
  from 2(3) have a: "without_quantity inc' = without_quantity inc"
    and b: "without_quantity ` (set opp' \<union> set sk')
              \<subseteq> without_quantity ` (set rest \<union> set (sk @ [best]))"
    and c: "\<forall>s \<in> set sk'. s \<in> set (sk @ [best]) \<or> same_agent inc s"
    and d: "heap_ok rest \<longrightarrow> heap_ok opp'"
    by (simp_all add: res)
  have b': "without_quantity ` (set opp' \<union> set sk')
              \<subseteq> without_quantity ` (set (best # rest) \<union> set sk)"
    using b by auto
  have c': "\<forall>s \<in> set sk'. s \<in> set sk \<or> same_agent inc s"
    using c 2(2) by auto
  have d': "heap_ok (best # rest) \<longrightarrow> heap_ok opp'"
    using d heap_ok_tl by blast
  show ?case
    using a b' c' d' by (simp add: res)
next
  case (3 inc best rest sk tr)
  show ?case by auto
next
  case (4 inc best rest sk tr res v)
  obtain inc' opp' sk' tr' where res: "res = (inc', opp', sk', tr')"
    by (cases res)
  define opp1 where "opp1 =
    (if quantity best - v > 0 then heappush rest (best\<lparr>quantity := quantity best - v\<rparr>) else rest)"
  from 4(5) have a: "without_quantity inc' = without_quantity inc"
    and b: "without_quantity ` (set opp' \<union> set sk') \<subseteq> without_quantity ` (set opp1 \<union> set sk)"
    and c: "\<forall>s \<in> set sk'. s \<in> set sk \<or> same_agent inc s"
    and d: "heap_ok opp1 \<longrightarrow> heap_ok opp'"
    by (simp_all add: res opp1_def)
  have "without_quantity ` (set opp1 \<union> set sk) \<subseteq> without_quantity ` (set (best # rest) \<union> set sk)"
    by (auto simp: opp1_def)
  with b have b': "without_quantity ` (set opp' \<union> set sk')
                     \<subseteq> without_quantity ` (set (best # rest) \<union> set sk)"
    by (rule subset_trans)
  have d': "heap_ok (best # rest) \<longrightarrow> heap_ok opp'"
    using d heap_ok_tl[of best rest] heap_ok_heappush[of rest]
    by (auto simp: opp1_def)
  show ?case
    using a b' c d' by (simp add: res)
qed

text \<open>
  When the loop ends with the incoming order unfilled, the opposite side is empty or its
  head fails the crossing test.
\<close>

lemma match_loop_unfilled:
  "case match_loop symb tk inc opp sk tr of (inc', opp', sk', tr') \<Rightarrow>
     quantity inc' > 0 \<longrightarrow> opp' = [] \<or> no_crossing inc (hd opp')"
  by (rule match_loop_rule[where P = "\<lambda>inc opp sk tr res.
        case res of (inc', opp', sk', tr') \<Rightarrow>
          quantity inc' > 0 \<longrightarrow> opp' = [] \<or> no_crossing inc (hd opp')"])
     (auto split: prod.splits)

subsection \<open>What the loop of \<open>_execute_market_order\<close> leaves behind\<close>

lemma market_loop_stop:
  "\<not> (quantity ord > 0 \<and> opp \<noteq> []) \<Longrightarrow>
     market_loop symb tk ord opp tr tf tc = (ord, opp, tr, tf, tc)"
  by (subst market_loop.simps) auto

lemma market_loop_trade:
  "quantity ord > 0 \<Longrightarrow> v = min (quantity ord) (quantity best) \<Longrightarrow>
     market_loop symb tk ord (best # rest) tr tf tc =
       market_loop symb tk (ord\<lparr>quantity := quantity ord - v\<rparr>)
         (if quantity best - v > 0 then heappush rest (best\<lparr>quantity := quantity best - v\<rparr>)
          else rest)
         (tr @ [make_trade symb tk ord best (order_price best) v])
         (tf + v) (tc + real_of_int v * order_price best)"
  by (subst market_loop.simps) (simp add: Let_def)

lemma market_loop_shape:
  "case market_loop symb tk ord opp tr tf tc of (ord', opp', tr', tf', tc') \<Rightarrow>
     without_quantity ` set opp' \<subseteq> without_quantity ` set opp \<and>
     (heap_ok opp \<longrightarrow> heap_ok opp')"
proof (induction "length opp + (if quantity ord > 0 then 1 else 0)"
        arbitrary: ord opp tr tf tc rule: less_induct)
  case less
  show ?case
  proof (cases "quantity ord > 0 \<and> opp \<noteq> []")
    case False
    then show ?thesis by (simp only: market_loop_stop[OF False]) simp
  next
    case True
    then obtain best rest where opp: "opp = best # rest"
      by (cases opp) auto
    from True have q: "quantity ord > 0" by simp
    define v where "v = min (quantity ord) (quantity best)"
    define ord1 where "ord1 = ord\<lparr>quantity := quantity ord - v\<rparr>"
    define opp1 where "opp1 =
      (if quantity best - v > 0 then heappush rest (best\<lparr>quantity := quantity best - v\<rparr>)
       else rest)"
    define res where "res = market_loop symb tk ord1 opp1
        (tr @ [make_trade symb tk ord best (order_price best) v])
        (tf + v) (tc + real_of_int v * order_price best)"
    have eq: "market_loop symb tk ord opp tr tf tc = res"
      by (simp only: opp market_loop_trade[OF q v_def] res_def ord1_def opp1_def)
    have m: "length opp1 + (if quantity ord1 > 0 then 1 else 0)
               < length opp + (if quantity ord > 0 then 1 else 0)"
      using q by (auto simp: opp opp1_def ord1_def v_def heappush_def min_def)
    obtain ord' opp' tr' tf' tc' where r: "res = (ord', opp', tr', tf', tc')"
      by (cases res)
    from less[OF m, of "tr @ [make_trade symb tk ord best (order_price best) v]"
               "tf + v" "tc + real_of_int v * order_price best"]
    have a: "without_quantity ` set opp' \<subseteq> without_quantity ` set opp1"
      and b: "heap_ok opp1 \<longrightarrow> heap_ok opp'"
      by (simp_all add: res_def[symmetric] r)
    have "without_quantity ` set opp1 \<subseteq> without_quantity ` set opp"
      by (auto simp: opp1_def opp)
    with a have a': "without_quantity ` set opp' \<subseteq> without_quantity ` set opp"
      by (rule subset_trans)
    have b': "heap_ok opp \<longrightarrow> heap_ok opp'"
      using b heap_ok_tl[of best rest] heap_ok_heappush[of rest]
      by (auto simp: opp1_def opp)
    show ?thesis
      using a' b' by (simp add: eq r)
  qed
qed

subsection \<open>Every call of \<open>place_order\<close> keeps the book well formed\<close>

lemma book_inv_init: "book_inv (OrderBook_init symbol)"
  by (simp add: book_inv_def OrderBook_init_def)

lemma book_inv_market:
  assumes "book_inv book"
  shows "book_inv (snd (place_market_order book ord))"
proof -
  define opp where "opp = (if side ord = ''buy'' then asks book else bids book)"
  obtain ord' opp' tr' tf' tc' where ml:
    "market_loop (book_symbol book) (current_tick book) ord opp [] 0 0 = (ord', opp', tr', tf', tc')"
    by (cases "market_loop (book_symbol book) (current_tick book) ord opp [] 0 0")
  from market_loop_shape[where symb = "book_symbol book" and tk = "current_tick book"
         and ord = ord and opp = opp and tr = "[]" and tf = 0 and tc = 0]
  have sub: "without_quantity ` set opp' \<subseteq> without_quantity ` set opp"
    and hp: "heap_ok opp \<longrightarrow> heap_ok opp'"
    by (simp_all add: ml)
  have fields: "\<exists>o0 \<in> set opp. side o' = side o0 \<and> order_price o' = order_price o0 \<and>
                  agent_id o' = agent_id o0" if "o' \<in> set opp'" for o'
  proof -
    from that sub obtain o0 where "o0 \<in> set opp" "without_quantity o' = without_quantity o0"
      by auto
    with without_quantity_fields[of o' o0] show ?thesis by auto
  qed
  show ?thesis
  proof (cases "side ord = ''buy''")
    case True
    then have b: "snd (place_market_order book ord) = book\<lparr>asks := opp', trades := trades book @ tr'\<rparr>"
      using ml by (simp add: place_market_order_def execute_market_order_def opp_def Let_def)
    show ?thesis
      unfolding b using assms hp fields True
      by (simp add: book_inv_def opp_def) metis
  next
    case False
    then have b: "snd (place_market_order book ord) = book\<lparr>bids := opp', trades := trades book @ tr'\<rparr>"
      using ml by (simp add: place_market_order_def execute_market_order_def opp_def Let_def)
    show ?thesis
      unfolding b using assms hp fields False
      by (simp add: book_inv_def opp_def) metis
  qed
qed

lemma unfilled_below_asks:
  assumes "heap_ok opp" "\<forall>a \<in> set opp. side a \<noteq> ''buy''" "no_crossing inc (hd opp)"
    "side inc = ''buy''" "a \<in> set opp"
  shows "order_price inc < order_price a"
proof -
  from assms(5) obtain best rest where opp: "opp = best # rest"
    by (cases opp) auto
  from assms(3,4) have "order_price inc < order_price best"
    by (simp add: no_crossing_def opp)
  moreover have "order_price best \<le> order_price a"
    using assms(5) heap_head_ask[of best rest a] assms(1,2) by (auto simp: opp)
  ultimately show ?thesis by simp
qed

lemma unfilled_above_bids:
  assumes "heap_ok opp" "\<forall>b \<in> set opp. side b = ''buy''" "no_crossing inc (hd opp)"
    "side inc \<noteq> ''buy''" "b \<in> set opp"
  shows "order_price b < order_price inc"
proof -
  from assms(5) obtain best rest where opp: "opp = best # rest"
    by (cases opp) auto
  from assms(3,4) have "order_price best < order_price inc"
    by (simp add: no_crossing_def opp)
  moreover have "order_price b \<le> order_price best"
    using assms(5) heap_head_bid[of best rest b] assms(1,2) by (auto simp: opp)
  ultimately show ?thesis by simp
qed

lemma book_invI:
  assumes "heap_ok (bids book)" "heap_ok (asks book)"
    and "\<And>x. x \<in> set (bids book) \<Longrightarrow> side x = ''buy''"
    and "\<And>x. x \<in> set (asks book) \<Longrightarrow> side x \<noteq> ''buy''"
    and "\<And>x y. x \<in> set (bids book) \<Longrightarrow> y \<in> set (asks book) \<Longrightarrow>
           order_price y \<le> order_price x \<Longrightarrow> agent_id x = agent_id y \<and> agent_id x \<noteq> []"
  shows "book_inv book"
  using assms unfolding book_inv_def by blast

lemma book_inv_limit:
  assumes inv: "book_inv book"
  shows "book_inv (snd (place_limit_order book ord))"
proof -
  define opp where "opp = (if side ord = ''buy'' then asks book else bids book)"
  obtain inc' opp' sk' tr' where ml:
    "match_loop (book_symbol book) (current_tick book) ord opp [] [] = (inc', opp', sk', tr')"
    by (cases "match_loop (book_symbol book) (current_tick book) ord opp [] []")
  define restored where "restored = fold (\<lambda>ord heap. heappush heap ord) sk' opp'"
  from match_loop_shape[where symb = "book_symbol book" and tk = "current_tick book"
         and inc = ord and opp = opp and sk = "[]" and tr = "[]"]
  have wq: "without_quantity inc' = without_quantity ord"
    and sub: "without_quantity ` (set opp' \<union> set sk') \<subseteq> without_quantity ` set opp"
    and own: "\<forall>s \<in> set sk'. same_agent ord s"
    and hp: "heap_ok opp \<longrightarrow> heap_ok opp'"
    by (simp_all add: ml)
  from match_loop_unfilled[where symb = "book_symbol book" and tk = "current_tick book"
         and inc = ord and opp = opp and sk = "[]" and tr = "[]"]
  have unf: "quantity inc' > 0 \<longrightarrow> opp' = [] \<or> no_crossing ord (hd opp')"
    by (simp add: ml)
  have inc: "side inc' = side ord" "order_price inc' = order_price ord"
    "agent_id inc' = agent_id ord"
    using without_quantity_fields[OF wq] by simp_all
  have set_r: "set restored = set sk' \<union> set opp'"
    by (simp add: restored_def)
  have fields: "\<exists>o0 \<in> set opp. side o' = side o0 \<and> order_price o' = order_price o0 \<and>
                  agent_id o' = agent_id o0" if "o' \<in> set restored" for o'
  proof -
    from that sub set_r obtain o0 where "o0 \<in> set opp" "without_quantity o' = without_quantity o0"
      by auto
    with without_quantity_fields[of o' o0] show ?thesis by auto
  qed
  have cr: "agent_id b = agent_id a \<and> agent_id b \<noteq> []"
    if "b \<in> set (bids book)" "a \<in> set (asks book)" "order_price a \<le> order_price b" for a b
    using inv that unfolding book_inv_def by blast
  show ?thesis
  proof (cases "side ord = ''buy''")
    case True
    then have o: "opp = asks book" by (simp add: opp_def)
    have hr: "heap_ok restored" and ho: "heap_ok opp'"
      using inv hp heap_ok_restore[of opp' sk'] by (auto simp: book_inv_def o restored_def)
    have sides: "\<forall>a \<in> set restored. side a \<noteq> ''buy''"
      using fields inv by (fastforce simp: book_inv_def o)
    have old: "agent_id b = agent_id a \<and> agent_id b \<noteq> []"
      if "b \<in> set (bids book)" "a \<in> set restored" "order_price a \<le> order_price b" for a b
    proof -
      from fields[OF that(2)] obtain a0 where a0: "a0 \<in> set (asks book)"
        "order_price a = order_price a0" "agent_id a = agent_id a0"
        by (auto simp: o)
      from cr[OF that(1) a0(1)] that(3) a0 show ?thesis by auto
    qed
    have new: "agent_id inc' = agent_id a \<and> agent_id inc' \<noteq> []"
      if "quantity inc' > 0" "a \<in> set restored" "order_price a \<le> order_price inc'" for a
    proof (cases "a \<in> set sk'")
      case True
      with own have "same_agent ord a" by simp
      then show ?thesis by (simp add: same_agent_def inc)
    next
      case False
      with that set_r have a: "a \<in> set opp'" by simp
      with unf that(1) have "no_crossing ord (hd opp')" by auto
      from unfilled_below_asks[OF ho _ this \<open>side ord = ''buy''\<close> a] sides set_r
      have "order_price ord < order_price a" by simp
      with that(3) show ?thesis by (simp add: inc)
    qed
    have b: "snd (place_limit_order book ord) =
       (if quantity inc' > 0
        then book\<lparr>asks := restored, trades := trades book @ tr', bids := heappush (bids book) inc'\<rparr>
        else book\<lparr>asks := restored, trades := trades book @ tr'\<rparr>)"
      using ml True
      by (simp add: place_limit_order_def match_against_def add_to_book_def opp_def Let_def
            restored_def inc)
    show ?thesis
    proof (cases "quantity inc' > 0")
      case q: True
      have "book_inv (book\<lparr>asks := restored, trades := trades book @ tr',
                          bids := heappush (bids book) inc'\<rparr>)"
      proof (rule book_invI, goal_cases)
        case 1
        show ?case using inv heap_ok_heappush[of "bids book" inc'] by (simp add: book_inv_def)
      next
        case 2
        show ?case using hr by simp
      next
        case (3 x)
        then show ?case using inv True by (auto simp: book_inv_def inc)
      next
        case (4 x)
        then show ?case using sides by simp
      next
        case (5 x y)
        show ?case
        proof (cases "x = inc'")
          case True
          with new[OF q, of y] 5 show ?thesis by auto
        next
          case False
          with old[of x y] 5 show ?thesis by auto
        qed
      qed
      with q b show ?thesis by simp
    next
      case q: False
      have "book_inv (book\<lparr>asks := restored, trades := trades book @ tr'\<rparr>)"
      proof (rule book_invI, goal_cases)
        case 1
        show ?case using inv by (simp add: book_inv_def)
      next
        case 2
        show ?case using hr by simp
      next
        case (3 x)
        then show ?case using inv by (simp add: book_inv_def)
      next
        case (4 x)
        then show ?case using sides by simp
      next
        case (5 x y)
        with old[of x y] show ?case by auto
      qed
      with q b show ?thesis by simp
    qed
  next
    case False
    then have o: "opp = bids book" by (simp add: opp_def)
    have hr: "heap_ok restored" and ho: "heap_ok opp'"
      using inv hp heap_ok_restore[of opp' sk'] by (auto simp: book_inv_def o restored_def)
    have sides: "\<forall>b \<in> set restored. side b = ''buy''"
      using fields inv by (fastforce simp: book_inv_def o)
    have old: "agent_id b = agent_id a \<and> agent_id b \<noteq> []"
      if "b \<in> set restored" "a \<in> set (asks book)" "order_price a \<le> order_price b" for a b
    proof -
      from fields[OF that(1)] obtain b0 where b0: "b0 \<in> set (bids book)"
        "order_price b = order_price b0" "agent_id b = agent_id b0"
        by (auto simp: o)
      from cr[OF b0(1) that(2)] that(3) b0 show ?thesis by auto
    qed
    have new: "agent_id b = agent_id inc' \<and> agent_id b \<noteq> []"
      if "quantity inc' > 0" "b \<in> set restored" "order_price inc' \<le> order_price b" for b
    proof (cases "b \<in> set sk'")
      case True
      with own have "same_agent ord b" by simp
      then show ?thesis by (simp add: same_agent_def inc)
    next
      case nsk: False
      with that set_r have m: "b \<in> set opp'" by simp
      with unf that(1) have "no_crossing ord (hd opp')" by auto
      from unfilled_above_bids[OF ho _ this False m] sides set_r
      have "order_price b < order_price ord" by simp
      with that(3) show ?thesis by (simp add: inc)
    qed
    have b: "snd (place_limit_order book ord) =
       (if quantity inc' > 0
        then book\<lparr>bids := restored, trades := trades book @ tr', asks := heappush (asks book) inc'\<rparr>
        else book\<lparr>bids := restored, trades := trades book @ tr'\<rparr>)"
      using ml False
      by (simp add: place_limit_order_def match_against_def add_to_book_def opp_def Let_def
            restored_def inc)
    show ?thesis
    proof (cases "quantity inc' > 0")
      case q: True
      have "book_inv (book\<lparr>bids := restored, trades := trades book @ tr',
                          asks := heappush (asks book) inc'\<rparr>)"
      proof (rule book_invI, goal_cases)
        case 1
        show ?case using hr by simp
      next
        case 2
        show ?case using inv heap_ok_heappush[of "asks book" inc'] by (simp add: book_inv_def)
      next
        case (3 x)
        then show ?case using sides by simp
      next
        case (4 x)
        then show ?case using inv False by (auto simp: book_inv_def inc)
      next
        case (5 x y)
        show ?case
        proof (cases "y = inc'")
          case True
          with new[OF q, of x] 5 show ?thesis by auto
        next
          case False
          with old[of x y] 5 show ?thesis by auto
        qed
      qed
      with q b show ?thesis by simp
    next
      case q: False
      have "book_inv (book\<lparr>bids := restored, trades := trades book @ tr'\<rparr>)"
      proof (rule book_invI, goal_cases)
        case 1
        show ?case using hr by simp
      next
        case 2
        show ?case using inv by (simp add: book_inv_def)
      next
        case (3 x)
        then show ?case using sides by simp
      next
        case (4 x)
        then show ?case using inv by (simp add: book_inv_def)
      next
        case (5 x y)
        with old[of x y] show ?case by auto
      qed
      with q b show ?thesis by simp
    qed
  qed
qed

lemma book_inv_place_order:
  "book_inv book \<Longrightarrow> book_inv (snd (place_order book price vol sd otype agent fresh))"
  using book_inv_limit book_inv_market
  by (auto simp: place_order_def Let_def split: prod.splits) (metis snd_conv)+

lemma book_inv_run_calls: "book_inv book \<Longrightarrow> book_inv (run_calls book cs)"
  unfolding run_calls_def
  by (induction cs arbitrary: book) (auto simp: place_call_def book_inv_place_order)

section \<open>Claims about the order book\<close>

lemma py_max_by_mem: "py_max_by f xs = Some m \<Longrightarrow> m \<in> set xs"
proof -
  have "foldl (\<lambda>m y. if f y > f m then y else m) x ys \<in> set (x # ys)" for x ys
    by (induction ys arbitrary: x) (auto split: if_splits)
  then show "py_max_by f xs = Some m \<Longrightarrow> m \<in> set xs"
    by (cases xs) auto
qed

lemma py_min_by_mem: "py_min_by f xs = Some m \<Longrightarrow> m \<in> set xs"
proof -
  have "foldl (\<lambda>m y. if f y < f m then y else m) x ys \<in> set (x # ys)" for x ys
    by (induction ys arbitrary: x) (auto split: if_splits)
  then show "py_min_by f xs = Some m \<Longrightarrow> m \<in> set xs"
    by (cases xs) auto
qed

text \<open>
  C1 (as amended). After any sequence of \<open>place_order\<close> calls on a new book in which
  every price is a finite number (none is NaN or an infinity), the best bid's price
  reaches the best ask's price only when the best bid and the best ask belong to the same
  participant with a non-empty id: self-trade avoidance never matches a participant's own
  orders, whatever their prices. The prices of the calls \<open>cs\<close> are reals, which is the
  proviso.
\<close>

theorem crossed_only_with_own_orders:
  "\<forall>bb ba. best_bid (run_calls (OrderBook_init symbol) cs) = Some bb \<and>
            best_ask (run_calls (OrderBook_init symbol) cs) = Some ba \<and>
            order_price ba \<le> order_price bb
            \<longrightarrow> agent_id bb = agent_id ba \<and> agent_id bb \<noteq> []"
proof (intro allI impI, elim conjE)
  fix bb ba
  define book where "book = run_calls (OrderBook_init symbol) cs"
  assume "best_bid (run_calls (OrderBook_init symbol) cs) = Some bb"
    and "best_ask (run_calls (OrderBook_init symbol) cs) = Some ba"
    and le: "order_price ba \<le> order_price bb"
  then have "bb \<in> set (bids book)" "ba \<in> set (asks book)"
    by (simp_all add: book_def best_bid_def best_ask_def py_max_by_mem py_min_by_mem)
  moreover have "book_inv book"
    unfolding book_def by (rule book_inv_run_calls[OF book_inv_init])
  ultimately show "agent_id bb = agent_id ba \<and> agent_id bb \<noteq> []"
    using le unfolding book_inv_def by blast
qed

theorem crossed_only_with_own_orders_witness:
  "map_option order_price (best_bid book_self_crossed) = Some 101 \<and>
   map_option order_price (best_ask book_self_crossed) = Some 100 \<and>
   map_option agent_id (best_bid book_self_crossed) = Some ''A'' \<and>
   map_option agent_id (best_ask book_self_crossed) = Some ''A''"
proof -
  define bb where "bb = \<lparr>order_id = ''o'', agent_id = ''A'', side = ''buy'', order_price = 101,
     quantity = 5, order_type = ''limit'', timestamp = 0\<rparr>"
  define ba where "ba = \<lparr>order_id = ''oo'', agent_id = ''A'', side = ''sell'', order_price = 100,
     quantity = 5, order_type = ''limit'', timestamp = 1\<rparr>"
  have b: "best_bid book_self_crossed = Some bb" and a: "best_ask book_self_crossed = Some ba"
    unfolding bb_def ba_def by code_simp+
  have p: "order_price ba \<le> order_price bb" "order_price bb = 101" "order_price ba = 100"
    "agent_id ba = ''A''"
    by (simp_all add: bb_def ba_def)
  from crossed_only_with_own_orders[of "''X''" "[call_buy_A, call_sell_A]"] a b p(1)
  have "agent_id bb = agent_id ba"
    by (simp add: book_self_crossed_def)
  with a b p show ?thesis by simp
qed

theorem crossing_invariant_counterexample:
  "bids book_self_crossed \<noteq> [] \<and> asks book_self_crossed \<noteq> [] \<and>
   map_option order_price (best_bid book_self_crossed) = Some 101 \<and>
   map_option order_price (best_ask book_self_crossed) = Some 100 \<and>
   (100 :: real) \<le> 101"
  by code_simp

subsection \<open>The trades of a limit order\<close>

lemma fills_ok_Nil [simp]: "fills_ok inc opp []"
  by (simp add: fills_ok_def)

lemma fills_ok_mono: "fills_ok inc opp new \<Longrightarrow> set opp \<subseteq> set opp' \<Longrightarrow> fills_ok inc opp' new"
  unfolding fills_ok_def by blast

lemma fills_ok_Cons:
  assumes first: "trade_price t = order_price inc"
      "order_id best = resting_order_id (side inc) t"
      "volume t = min (quantity inc) (quantity best)"
    and rest: "fills_ok (inc\<lparr>quantity := quantity inc - volume t\<rparr>) rest new"
  shows "fills_ok inc (best # rest) (t # new)"
  unfolding fills_ok_def
proof (intro allI impI)
  fix k assume k: "k < length (t # new)"
  show "trade_price ((t # new) ! k) = order_price inc \<and>
        (\<exists>r \<in> set (best # rest).
           order_id r = resting_order_id (side inc) ((t # new) ! k) \<and>
           volume ((t # new) ! k) =
             min (quantity inc - sum_list (map volume (take k (t # new)))) (quantity r))"
  proof (cases k)
    case 0
    with first show ?thesis by simp
  next
    case (Suc j)
    with k have j: "j < length new" by simp
    from rest[unfolded fills_ok_def, rule_format, OF j]
    obtain r where r: "r \<in> set rest" "order_id r = resting_order_id (side inc) (new ! j)"
      "volume (new ! j) =
         min (quantity inc - volume t - sum_list (map volume (take j new))) (quantity r)"
      and p: "trade_price (new ! j) = order_price inc"
      by auto
    have "quantity inc - volume t - sum_list (map volume (take j new))
            = quantity inc - sum_list (map volume (take (Suc j) (t # new)))"
      by simp
    with r p show ?thesis
      unfolding Suc by (intro conjI bexI[of _ r]) simp_all
  qed
qed

lemma match_loop_fills:
  "case match_loop symb tk inc opp sk tr of (inc', opp', sk', tr') \<Rightarrow>
     \<exists>new. tr' = tr @ new \<and> (quantity inc \<le> 0 \<longrightarrow> new = []) \<and> fills_ok inc opp new"
proof (rule match_loop_rule[where P = "\<lambda>inc opp sk tr res.
     case res of (inc', opp', sk', tr') \<Rightarrow>
       \<exists>new. tr' = tr @ new \<and> (quantity inc \<le> 0 \<longrightarrow> new = []) \<and> fills_ok inc opp new"],
    goal_cases)
  case (1 inc opp sk tr)
  show ?case by simp
next
  case (2 inc best rest sk tr res)
  obtain inc' opp' sk' tr' where res: "res = (inc', opp', sk', tr')"
    by (cases res)
  from 2(3) obtain new where "tr' = tr @ new" "fills_ok inc rest new"
    by (auto simp: res)
  with 2(1) fills_ok_mono[of inc rest new "best # rest"] show ?case
    by (auto simp: res)
next
  case (3 inc best rest sk tr)
  show ?case by simp
next
  case (4 inc best rest sk tr res v)
  obtain inc' opp' sk' tr' where res: "res = (inc', opp', sk', tr')"
    by (cases res)
  define t where "t = make_trade symb tk inc best (order_price inc) v"
  define inc1 where "inc1 = inc\<lparr>quantity := quantity inc - v\<rparr>"
  define opp1 where "opp1 =
    (if quantity best - v > 0 then heappush rest (best\<lparr>quantity := quantity best - v\<rparr>) else rest)"
  from 4(5) obtain new where new: "tr' = (tr @ [t]) @ new"
    "quantity inc1 \<le> 0 \<longrightarrow> new = []" "fills_ok inc1 opp1 new"
    by (auto simp: res t_def inc1_def opp1_def)
  have vt: "volume t = v" "trade_price t = order_price inc"
    "order_id best = resting_order_id (side inc) t"
    by (simp_all add: t_def make_trade_def resting_order_id_def)
  have "fills_ok inc1 rest new"
  proof (cases "quantity best - v > 0")
    case True
    with 4(4) have "v = quantity inc" by (simp add: min_def split: if_splits)
    with new(2) have "new = []" by (simp add: inc1_def)
    then show ?thesis by simp
  next
    case False
    with new(3) show ?thesis by (simp add: opp1_def)
  qed
  then have "fills_ok inc (best # rest) (t # new)"
    using vt 4(4) by (intro fills_ok_Cons) (simp_all add: inc1_def)
  with new(1) 4(1) show ?case
    by (auto simp: res)
qed

lemma match_loop_no_self_trade:
  "case match_loop symb tk inc opp sk tr of (inc', opp', sk', tr') \<Rightarrow>
     \<exists>new. tr' = tr @ new \<and> (\<forall>t \<in> set new. buyer t = seller t \<longrightarrow> buyer t = [] \<and> seller t = [])"
proof (rule match_loop_rule[where P = "\<lambda>inc opp sk tr res.
     case res of (inc', opp', sk', tr') \<Rightarrow>
       \<exists>new. tr' = tr @ new \<and>
         (\<forall>t \<in> set new. buyer t = seller t \<longrightarrow> buyer t = [] \<and> seller t = [])"],
    goal_cases)
  case (1 inc opp sk tr)
  show ?case by simp
next
  case (2 inc best rest sk tr res)
  then show ?case by simp
next
  case (3 inc best rest sk tr)
  show ?case by simp
next
  case (4 inc best rest sk tr res v)
  obtain inc' opp' sk' tr' where res: "res = (inc', opp', sk', tr')"
    by (cases res)
  define t where "t = make_trade symb tk inc best (order_price inc) v"
  from 4(5) obtain new where new: "tr' = (tr @ [t]) @ new"
    "\<forall>t \<in> set new. buyer t = seller t \<longrightarrow> buyer t = [] \<and> seller t = []"
    by (auto simp: res t_def)
  have "buyer t = seller t \<longrightarrow> buyer t = [] \<and> seller t = []"
    using 4(2) by (auto simp: t_def make_trade_def same_agent_def)
  with new show ?case
    by (auto simp: res intro!: exI[of _ "t # new"])
qed

text \<open>
  A limit order through \<open>place_order\<close>: the trades returned are those of the loop, and
  the opposite side afterwards is what the loop left with the skipped orders pushed back.
\<close>

lemma place_limit_run:
  assumes "place_order book price vol sd ''limit'' agent fresh = (res, book')"
  obtains inc' opp' sk' tr where
    "match_loop (book_symbol book) (current_tick book)
       \<lparr>order_id = fst fresh, agent_id = agent, side = sd, order_price = price,
        quantity = vol, order_type = ''limit'', timestamp = snd fresh\<rparr>
       (opposite_side sd book) [] [] = (inc', opp', sk', tr)"
    "res = Inr tr"
    "opposite_side sd book' = fold (\<lambda>ord heap. heappush heap ord) sk' opp'"
proof -
  define inc where "inc = \<lparr>order_id = fst fresh, agent_id = agent, side = sd,
     order_price = price, quantity = vol, order_type = ''limit'', timestamp = snd fresh\<rparr>"
  obtain inc' opp' sk' tr where ml:
    "match_loop (book_symbol book) (current_tick book) inc (opposite_side sd book) [] []
       = (inc', opp', sk', tr)"
    by (cases "match_loop (book_symbol book) (current_tick book) inc (opposite_side sd book) [] []")
  from match_loop_shape[where symb = "book_symbol book" and tk = "current_tick book"
         and inc = inc and opp = "opposite_side sd book" and sk = "[]" and tr = "[]"]
  have "without_quantity inc' = without_quantity inc"
    by (simp add: ml)
  then have sd: "side inc' = sd"
    using without_quantity_fields(1)[of inc' inc] by (simp add: inc_def)
  have s: "side inc = sd" by (simp add: inc_def)
  from assms ml sd s have "res = Inr tr"
    "opposite_side sd book' = fold (\<lambda>ord heap. heappush heap ord) sk' opp'"
    by (auto simp: place_order_def place_limit_order_def match_against_def add_to_book_def
          opposite_side_def Let_def inc_def[symmetric] split: if_splits)
  with ml that show ?thesis
    by (simp add: inc_def)
qed

subsection \<open>Skipped orders return to their place\<close>

lemma order_key_inj: "inj order_key"
proof (rule injI)
  fix a b :: order
  assume "order_key a = order_key b"
  then show "a = b"
    by (intro order.equality) (simp_all add: order_key_def)
qed

lemma heap_ok_Cons: "heap_ok (ord # heap) \<longleftrightarrow> (\<forall>y \<in> set heap. order_key ord \<le> order_key y) \<and> heap_ok heap"
  by (auto simp: heap_ok_def)

lemma heap_ok_append:
  "heap_ok (xs @ ys) \<longleftrightarrow>
     heap_ok xs \<and> heap_ok ys \<and> (\<forall>x \<in> set xs. \<forall>y \<in> set ys. order_key x \<le> order_key y)"
  by (auto simp: heap_ok_def sorted_append)

text \<open>Two heaps with the same contents are the same list, since no two orders compare equal.\<close>

lemma heap_unique:
  assumes "heap_ok xs" "heap_ok ys" "mset xs = mset ys"
  shows "xs = ys"
proof -
  have "mset (map order_key xs) = mset (map order_key ys)"
    using assms(3) by simp
  from properties_for_sort[OF this] assms(1)
  have "sort (map order_key ys) = map order_key xs"
    by (simp add: heap_ok_def)
  moreover have "sort (map order_key ys) = map order_key ys"
    using assms(2) by (simp add: heap_ok_def sorted_sort_id)
  ultimately have "map order_key xs = map order_key ys" by simp
  then show ?thesis
    using order_key_inj by simp
qed

lemma mset_restore [simp]:
  "mset (fold (\<lambda>ord heap. heappush heap ord) sk heap) = mset sk + mset heap"
  by (induction sk arbitrary: heap) (simp_all add: heappush_def)

lemma restore_sorted: "heap_ok (sk @ heap) \<Longrightarrow> fold (\<lambda>ord heap. heappush heap ord) sk heap = sk @ heap"
proof (rule heap_unique)
  assume a: "heap_ok (sk @ heap)"
  then show "heap_ok (fold (\<lambda>ord heap. heappush heap ord) sk heap)"
    by (simp add: heap_ok_append heap_ok_restore)
  show "heap_ok (sk @ heap)" by (rule a)
  show "mset (fold (\<lambda>ord heap. heappush heap ord) sk heap) = mset (sk @ heap)" by simp
qed

text \<open>
  A partial fill lowers the quantity of the order it fills. The order keeps its place:
  it still sorts before everything that sorted after it, and after every order of
  another participant that sorted before it.
\<close>

lemma order_key_fill_le:
  "q \<le> quantity best \<Longrightarrow> order_key (best\<lparr>quantity := q\<rparr>) \<le> order_key best"
  by (simp add: order_key_def sort_index_def less_eq_prod_def)

lemma order_key_before_fill:
  assumes "order_key s \<le> order_key best" "agent_id s \<noteq> agent_id best"
  shows "order_key s \<le> order_key (best\<lparr>quantity := q\<rparr>)"
proof -
  have si: "sort_index (best\<lparr>quantity := q\<rparr>) = sort_index best"
    by (simp add: sort_index_def)
  from assms show ?thesis
    unfolding order_key_def si by (auto simp: less_eq_prod_def less_prod_def)
qed

lemma heappush_front:
  "\<forall>y \<in> set heap. order_key ord \<le> order_key y \<Longrightarrow> heappush heap ord = ord # heap"
  by (cases heap) (simp_all add: heappush_def)

lemma same_agent_quantity_fun [simp]: "same_agent (inc\<lparr>quantity := q\<rparr>) = same_agent inc"
  by (rule ext) simp

lemma match_loop_priority:
  "case match_loop symb tk inc opp sk tr of (inc', opp', sk', tr') \<Rightarrow>
     heap_ok (sk @ opp) \<and> (\<forall>s \<in> set sk. same_agent inc s) \<longrightarrow>
       (\<exists>kept. fold (\<lambda>ord heap. heappush heap ord) sk' opp' = sk @ kept \<and>
          subseq (map without_quantity kept) (map without_quantity opp) \<and>
          filter (same_agent inc) kept = filter (same_agent inc) opp)"
proof (rule match_loop_rule[where P = "\<lambda>inc opp sk tr res.
     case res of (inc', opp', sk', tr') \<Rightarrow>
     heap_ok (sk @ opp) \<and> (\<forall>s \<in> set sk. same_agent inc s) \<longrightarrow>
       (\<exists>kept. fold (\<lambda>ord heap. heappush heap ord) sk' opp' = sk @ kept \<and>
          subseq (map without_quantity kept) (map without_quantity opp) \<and>
          filter (same_agent inc) kept = filter (same_agent inc) opp)"], goal_cases)
  case (1 inc opp sk tr)
  show ?case
    by (auto simp: restore_sorted intro!: exI[of _ opp])
next
  case (2 inc best rest sk tr res)
  obtain inc' opp' sk' tr' where res: "res = (inc', opp', sk', tr')"
    by (cases res)
  show ?case
    unfolding res prod.case
  proof (intro impI, elim conjE)
    assume h: "heap_ok (sk @ best # rest)" and own: "\<forall>s \<in> set sk. same_agent inc s"
    from 2(3) h own 2(2) obtain kept where k:
      "fold (\<lambda>ord heap. heappush heap ord) sk' opp' = (sk @ [best]) @ kept"
      "subseq (map without_quantity kept) (map without_quantity rest)"
      "filter (same_agent inc) kept = filter (same_agent inc) rest"
      by (auto simp: res)
    show "\<exists>kept. fold (\<lambda>ord heap. heappush heap ord) sk' opp' = sk @ kept \<and>
          subseq (map without_quantity kept) (map without_quantity (best # rest)) \<and>
          filter (same_agent inc) kept = filter (same_agent inc) (best # rest)"
      using k 2(2) by (intro exI[of _ "best # kept"]) simp
  qed
next
  case (3 inc best rest sk tr)
  show ?case
    by (auto simp: restore_sorted intro!: exI[of _ "best # rest"])
next
  case (4 inc best rest sk tr res v)
  obtain inc' opp' sk' tr' where res: "res = (inc', opp', sk', tr')"
    by (cases res)
  define best' where "best' = best\<lparr>quantity := quantity best - v\<rparr>"
  define opp1 where "opp1 = (if quantity best - v > 0 then heappush rest best' else rest)"
  show ?case
    unfolding res prod.case
  proof (intro impI, elim conjE)
    assume h: "heap_ok (sk @ best # rest)" and own: "\<forall>s \<in> set sk. same_agent inc s"
    from h have hs: "heap_ok sk" and hr: "heap_ok rest"
      and sb: "\<forall>s \<in> set sk. order_key s \<le> order_key best"
      and sr: "\<forall>s \<in> set sk. \<forall>y \<in> set rest. order_key s \<le> order_key y"
      and br: "\<forall>y \<in> set rest. order_key best \<le> order_key y"
      by (auto simp: heap_ok_append heap_ok_Cons)
    have nb: "\<not> same_agent inc best'" using 4(2) by (simp add: best'_def)
    have wq: "without_quantity best' = without_quantity best" by (simp add: best'_def)
    have h1: "heap_ok (sk @ opp1)"
      and e1: "subseq (map without_quantity opp1) (map without_quantity (best # rest))"
      and f1: "filter (same_agent inc) opp1 = filter (same_agent inc) (best # rest)"
    proof -
      show "heap_ok (sk @ opp1)"
      proof (cases "quantity best - v > 0")
        case False
        then show ?thesis using hs hr sr by (simp add: opp1_def heap_ok_append)
      next
        case True
        with 4(1,4) have "quantity best - v \<le> quantity best"
          by (simp add: min_def split: if_splits)
        then have le: "order_key best' \<le> order_key best"
          unfolding best'_def by (rule order_key_fill_le)
        with br have front: "\<forall>y \<in> set rest. order_key best' \<le> order_key y"
          by (meson order_trans)
        have "agent_id s \<noteq> agent_id best" if "s \<in> set sk" for s
          using own that 4(2) by (auto simp: same_agent_def)
        with sb have "\<forall>s \<in> set sk. order_key s \<le> order_key best'"
          unfolding best'_def by (auto intro: order_key_before_fill)
        with True front hs hr sr show ?thesis
          by (simp add: opp1_def heappush_front heap_ok_append heap_ok_Cons)
      qed
      show "subseq (map without_quantity opp1) (map without_quantity (best # rest))"
      proof (cases "quantity best - v > 0")
        case False
        have "subseq (map without_quantity rest) (map without_quantity (best # rest))"
          by (simp add: list_emb_Cons)
        with False show ?thesis by (simp add: opp1_def)
      next
        case True
        with 4(1,4) have "quantity best - v \<le> quantity best"
          by (simp add: min_def split: if_splits)
        then have "order_key best' \<le> order_key best"
          unfolding best'_def by (rule order_key_fill_le)
        with br have "\<forall>y \<in> set rest. order_key best' \<le> order_key y"
          by (meson order_trans)
        with True show ?thesis by (simp add: opp1_def heappush_front wq)
      qed
      show "filter (same_agent inc) opp1 = filter (same_agent inc) (best # rest)"
      proof (cases "quantity best - v > 0")
        case False
        then show ?thesis using 4(2) by (simp add: opp1_def)
      next
        case True
        with 4(1,4) have "quantity best - v \<le> quantity best"
          by (simp add: min_def split: if_splits)
        then have "order_key best' \<le> order_key best"
          unfolding best'_def by (rule order_key_fill_le)
        with br have "\<forall>y \<in> set rest. order_key best' \<le> order_key y"
          by (meson order_trans)
        with True show ?thesis using 4(2) nb by (simp add: opp1_def heappush_front)
      qed
    qed
    have ih: "heap_ok (sk @ opp1) \<and> (\<forall>s \<in> set sk. same_agent inc s) \<longrightarrow>
       (\<exists>kept. fold (\<lambda>ord heap. heappush heap ord) sk' opp' = sk @ kept \<and>
          subseq (map without_quantity kept) (map without_quantity opp1) \<and>
          filter (same_agent inc) kept = filter (same_agent inc) opp1)"
      using 4(5) unfolding res prod.case opp1_def best'_def same_agent_quantity_fun .
    with h1 own obtain kept where k:
      "fold (\<lambda>ord heap. heappush heap ord) sk' opp' = sk @ kept"
      "subseq (map without_quantity kept) (map without_quantity opp1)"
      "filter (same_agent inc) kept = filter (same_agent inc) opp1"
      by blast
    from k(2) e1 have "subseq (map without_quantity kept) (map without_quantity (best # rest))"
      by (rule subseq_order.order_trans)
    with k(1,3) f1
    show "\<exists>kept. fold (\<lambda>ord heap. heappush heap ord) sk' opp' = sk @ kept \<and>
          subseq (map without_quantity kept) (map without_quantity (best # rest)) \<and>
          filter (same_agent inc) kept = filter (same_agent inc) (best # rest)"
      by (intro exI[of _ kept]) simp
  qed
qed

text \<open>
  C5. A limit order placed with \<open>place_order\<close> returns trades, each at the price of the
  incoming order. The volume of the \<open>k\<close>-th trade is the smaller of the incoming
  quantity less the volumes of the trades before it, and the quantity that the resting
  order named by the trade had in the book.
\<close>

theorem limit_trade_price_and_volume:
  "place_order book price vol sd ''limit'' agent fresh = (res, book') \<Longrightarrow>
     \<exists>tr. res = Inr tr \<and>
       (\<forall>k < length tr.
          trade_price (tr ! k) = price \<and>
          (\<exists>r \<in> set (opposite_side sd book).
             order_id r = resting_order_id sd (tr ! k) \<and>
             volume (tr ! k) = min (vol - sum_list (map volume (take k tr))) (quantity r)))"
proof -
  assume a: "place_order book price vol sd ''limit'' agent fresh = (res, book')"
  define inc where "inc = \<lparr>order_id = fst fresh, agent_id = agent, side = sd,
     order_price = price, quantity = vol, order_type = ''limit'', timestamp = snd fresh\<rparr>"
  from a obtain inc' opp' sk' tr where ml:
    "match_loop (book_symbol book) (current_tick book) inc (opposite_side sd book) [] []
       = (inc', opp', sk', tr)"
    and res: "res = Inr tr"
    unfolding inc_def by (rule place_limit_run)
  from match_loop_fills[where symb = "book_symbol book" and tk = "current_tick book"
         and inc = inc and opp = "opposite_side sd book" and sk = "[]" and tr = "[]"]
  have "fills_ok inc (opposite_side sd book) tr"
    by (simp add: ml)
  then show ?thesis
    unfolding fills_ok_def by (simp add: res inc_def)
qed

theorem limit_trade_price_and_volume_witness:
  "map quantity (asks book_two_asks) = [2, 4] \<and>
   map (\<lambda>t. (trade_price t, volume t, seller_order t))
     (projr (fst (place_order book_two_asks 101 10 ''buy'' ''limit'' ''C'' (''ooo'', 2))))
     = [(101, min 10 2, ''o''), (101, min (10 - 2) 4, ''oo'')]"
proof -
  define r where "r = place_order book_two_asks 101 10 ''buy'' ''limit'' ''C'' (''ooo'', 2)"
  have e: "map (\<lambda>t. (volume t, seller_order t)) (projr (fst r)) = [(2, ''o''), (4, ''oo'')]"
    and q: "map quantity (asks book_two_asks) = [2, 4]"
    unfolding r_def by code_simp+
  have "place_order book_two_asks 101 10 ''buy'' ''limit'' ''C'' (''ooo'', 2) = (fst r, snd r)"
    by (simp add: r_def)
  from limit_trade_price_and_volume[OF this] obtain tr where tr: "fst r = Inr tr"
    and p: "\<forall>k < length tr. trade_price (tr ! k) = 101"
    by auto
  from e tr have l: "length tr = 2" and v: "map (\<lambda>t. (volume t, seller_order t)) tr = [(2, ''o''), (4, ''oo'')]"
    using length_map[of "\<lambda>t. (volume t, seller_order t)" tr] by simp_all
  then obtain t1 t2 where t: "tr = [t1, t2]"
    by (cases tr; cases "tl tr") auto
  from p[rule_format, of 0] p[rule_format, of 1] t
  have "trade_price t1 = 101" "trade_price t2 = 101"
    by simp_all
  with v t tr q show ?thesis
    by (simp add: r_def[symmetric])
qed

text \<open>
  C2 (as amended). A limit order placed with \<open>place_order\<close> on a book that the code has
  built, every price being a finite number (none is NaN or an infinity; the prices here
  are reals). A trade it returns has the same buyer and seller only when both ids are
  empty (the self-trade test passes over empty ids). When the id of the incoming order's
  participant is not empty, the resting orders of that participant on the opposite side
  are all still there afterwards, unchanged and in the same order. And the orders left
  on the opposite side stand in the order they stood in before.

  The statement is about limit orders: a market order is matched by
  \<open>_execute_market_order\<close>, which has no self-trade test, and trades with the resting
  orders of its own participant (second part of the counterexample below). A resting
  order of the empty id is not passed over by an incoming order of the empty id either
  (first part).
\<close>

theorem limit_order_self_trade_avoidance:
  "place_order (run_calls (OrderBook_init symbol) cs) price vol sd ''limit'' agent fresh
      = (res, book') \<Longrightarrow>
     (\<exists>tr. res = Inr tr \<and>
        (\<forall>t \<in> set tr. buyer t = seller t \<longrightarrow> buyer t = [] \<and> seller t = [])) \<and>
     filter (\<lambda>ord. agent \<noteq> [] \<and> agent_id ord = agent) (opposite_side sd book')
       = filter (\<lambda>ord. agent \<noteq> [] \<and> agent_id ord = agent)
           (opposite_side sd (run_calls (OrderBook_init symbol) cs)) \<and>
     subseq (map without_quantity (opposite_side sd book'))
       (map without_quantity (opposite_side sd (run_calls (OrderBook_init symbol) cs)))"
proof -
  define book where "book = run_calls (OrderBook_init symbol) cs"
  assume "place_order (run_calls (OrderBook_init symbol) cs) price vol sd ''limit'' agent fresh
      = (res, book')"
  then have a: "place_order book price vol sd ''limit'' agent fresh = (res, book')"
    by (simp add: book_def)
  define inc where "inc = \<lparr>order_id = fst fresh, agent_id = agent, side = sd,
     order_price = price, quantity = vol, order_type = ''limit'', timestamp = snd fresh\<rparr>"
  from a obtain inc' opp' sk' tr where ml:
    "match_loop (book_symbol book) (current_tick book) inc (opposite_side sd book) [] []
       = (inc', opp', sk', tr)"
    and res: "res = Inr tr"
    and opp: "opposite_side sd book' = fold (\<lambda>ord heap. heappush heap ord) sk' opp'"
    unfolding inc_def by (rule place_limit_run)
  have "book_inv book"
    unfolding book_def by (rule book_inv_run_calls[OF book_inv_init])
  then have h: "heap_ok (opposite_side sd book)"
    by (simp add: book_inv_def opposite_side_def)
  from match_loop_no_self_trade[where symb = "book_symbol book" and tk = "current_tick book"
         and inc = inc and opp = "opposite_side sd book" and sk = "[]" and tr = "[]"]
  have t: "\<forall>t \<in> set tr. buyer t = seller t \<longrightarrow> buyer t = [] \<and> seller t = []"
    by (simp add: ml)
  from match_loop_priority[where symb = "book_symbol book" and tk = "current_tick book"
         and inc = inc and opp = "opposite_side sd book" and sk = "[]" and tr = "[]"] h
  have k: "subseq (map without_quantity (opposite_side sd book'))
             (map without_quantity (opposite_side sd book))"
    "filter (same_agent inc) (opposite_side sd book')
       = filter (same_agent inc) (opposite_side sd book)"
    by (simp_all add: ml opp)
  have "same_agent inc = (\<lambda>ord. agent \<noteq> [] \<and> agent_id ord = agent)"
    by (rule ext) (auto simp: same_agent_def inc_def)
  with k t res show ?thesis
    by (simp add: book_def)
qed

theorem limit_order_self_trade_avoidance_witness:
  "map (\<lambda>ord. (agent_id ord, quantity ord)) (asks book_two_asks) = [(''A'', 2), (''B'', 4)] \<and>
   map (\<lambda>t. (buyer t, seller t, volume t))
     (projr (fst (place_order book_two_asks 101 3 ''buy'' ''limit'' ''A'' (''ooo'', 2))))
     = [(''A'', ''B'', 3)] \<and>
   map (\<lambda>ord. (agent_id ord, quantity ord))
     (asks (snd (place_order book_two_asks 101 3 ''buy'' ''limit'' ''A'' (''ooo'', 2))))
     = [(''A'', 2), (''B'', 1)] \<and>
   filter (\<lambda>ord. ''A'' \<noteq> [] \<and> agent_id ord = ''A'')
     (asks (snd (place_order book_two_asks 101 3 ''buy'' ''limit'' ''A'' (''ooo'', 2))))
     = filter (\<lambda>ord. ''A'' \<noteq> [] \<and> agent_id ord = ''A'') (asks book_two_asks)"
proof -
  define r where "r = place_order book_two_asks 101 3 ''buy'' ''limit'' ''A'' (''ooo'', 2)"
  have e: "map (\<lambda>ord. (agent_id ord, quantity ord)) (asks book_two_asks) = [(''A'', 2), (''B'', 4)]"
    "map (\<lambda>t. (buyer t, seller t, volume t)) (projr (fst r)) = [(''A'', ''B'', 3)]"
    "map (\<lambda>ord. (agent_id ord, quantity ord)) (asks (snd r)) = [(''A'', 2), (''B'', 1)]"
    unfolding r_def by code_simp+
  have "place_order (run_calls (OrderBook_init ''X'') [call_sell_A99, call_sell_B100])
          101 3 ''buy'' ''limit'' ''A'' (''ooo'', 2) = (fst r, snd r)"
    by (simp add: r_def book_two_asks_def)
  from limit_order_self_trade_avoidance[OF this]
  have "filter (\<lambda>ord. ''A'' \<noteq> [] \<and> agent_id ord = ''A'') (opposite_side ''buy'' (snd r))
      = filter (\<lambda>ord. ''A'' \<noteq> [] \<and> agent_id ord = ''A'') (opposite_side ''buy'' book_two_asks)"
    by (simp add: book_two_asks_def)
  with e show ?thesis
    by (simp add: r_def[symmetric] opposite_side_def)
qed

theorem no_self_trade_counterexample:
  "map (\<lambda>ord. (agent_id ord, order_price ord, quantity ord)) (bids book_anon_bid)
     = [([], 100, 5)] \<and>
   map (\<lambda>t. (buyer t, seller t, volume t))
     (projr (fst (place_order book_anon_bid 100 5 ''sell'' ''limit'' [] (''oo'', 1))))
     = [([], [], 5)] \<and>
   bids (snd (place_order book_anon_bid 100 5 ''sell'' ''limit'' [] (''oo'', 1))) = [] \<and>
   map (\<lambda>ord. (agent_id ord, order_price ord, quantity ord)) (asks book_two_asks)
     = [(''A'', 99, 2), (''B'', 100, 4)] \<and>
   map (\<lambda>t. (buyer t, seller t, trade_price t, volume t))
     (projr (fst (place_order book_two_asks 0 3 ''buy'' ''market'' ''A'' (''ooo'', 2))))
     = [(''A'', ''A'', 99, 2), (''A'', ''B'', 100, 1)] \<and>
   map (\<lambda>ord. (agent_id ord, order_price ord, quantity ord))
     (asks (snd (place_order book_two_asks 0 3 ''buy'' ''market'' ''A'' (''ooo'', 2))))
     = [(''B'', 100, 3)]"
  by code_simp

end
